theory Spec2Isabelle
  imports
    Main
    "HOL-Library.Char_ord"
    "HOL-Library.List_Lexorder"
    "HOL-Library.Product_Lexorder"
    "HOL-Library.Sublist"
begin

section \<open>Python values, records and errors\<close>

text \<open>
  The tracker of \<^verbatim>\<open>scripts/fetch_updates.py\<close> works on Python dictionaries with string keys.
  A dictionary is a partial map from keys to values; a value is a string or \<^verbatim>\<open>None\<close>
  (JSON \<^verbatim>\<open>null\<close>). Strings are lists of 8-bit characters: text outside ASCII stands
  for its UTF-8 bytes, and only the ASCII letters change under \<^verbatim>\<open>lower()\<close>.
\<close>

datatype pyval = PNone | PStr string

type_synonym pydict = "string \<rightharpoonup> pyval"

datatype py_error =
    KeyError | TypeError | ValueError | UnicodeDecodeError | PermissionError

text \<open>\<^verbatim>\<open>d.get(k)\<close>: the value, or \<^verbatim>\<open>None\<close> when the key is absent.\<close>

definition py_get :: "pydict \<Rightarrow> string \<Rightarrow> pyval" where
  "py_get d k = (case d k of None \<Rightarrow> PNone | Some v \<Rightarrow> v)"

text \<open>\<^verbatim>\<open>d.get(k, default)\<close>.\<close>

definition py_get_default :: "pydict \<Rightarrow> string \<Rightarrow> pyval \<Rightarrow> pyval" where
  "py_get_default d k dflt = (case d k of None \<Rightarrow> dflt | Some v \<Rightarrow> v)"

text \<open>Truth value of an object: \<^verbatim>\<open>None\<close> and the empty string are false.\<close>

fun truthy :: "pyval \<Rightarrow> bool" where
  "truthy PNone = False"
| "truthy (PStr s) = (s \<noteq> [])"

section \<open>Characters and strings\<close>

text \<open>
  A digit is one of the ten ASCII digits, which is what \<^verbatim>\<open>\d\<close> matches on such text.
\<close>

definition is_digit :: "char \<Rightarrow> bool" where
  "is_digit c = (CHR ''0'' \<le> c \<and> c \<le> CHR ''9'')"

definition digit_val :: "char \<Rightarrow> nat" where
  "digit_val c = of_char c - 48"

definition digit_char :: "nat \<Rightarrow> char" where
  "digit_char n = char_of (48 + n)"

text \<open>\<^verbatim>\<open>str.lower()\<close> on the ASCII letters.\<close>

definition lower_char :: "char \<Rightarrow> char" where
  "lower_char c = (if CHR ''A'' \<le> c \<and> c \<le> CHR ''Z'' then char_of (of_char c + (32::nat)) else c)"

definition lower :: "string \<Rightarrow> string" where
  "lower s = map lower_char s"

text \<open>\<^verbatim>\<open>p in s\<close> on strings: \<open>p\<close> occurs in \<open>s\<close> as a contiguous substring.\<close>

definition py_in :: "string \<Rightarrow> string \<Rightarrow> bool" where
  "py_in p s = sublist p s"

text \<open>\<^verbatim>\<open>any(f(x) for x in xs)\<close>.\<close>

definition py_any :: "('a \<Rightarrow> bool) \<Rightarrow> 'a list \<Rightarrow> bool" where
  "py_any f xs = list_ex f xs"

text \<open>
  \<^verbatim>\<open>s.strip(chars)\<close> removes the leading and the trailing characters of a class.
  \<^verbatim>\<open>s.strip()\<close> removes whitespace: in ASCII the characters 9 to 13, 28 to 31 and 32.
\<close>

definition strip_chars :: "(char \<Rightarrow> bool) \<Rightarrow> string \<Rightarrow> string" where
  "strip_chars P s = rev (dropWhile P (rev (dropWhile P s)))"

definition is_space :: "char \<Rightarrow> bool" where
  "is_space c = (let n = (of_char c :: nat) in (9 \<le> n \<and> n \<le> 13) \<or> (28 \<le> n \<and> n \<le> 32))"

definition strip_dash :: "string \<Rightarrow> string" where
  "strip_dash s = strip_chars (\<lambda>c. c = CHR ''-'') s"

definition strip_ws :: "string \<Rightarrow> string" where
  "strip_ws s = strip_chars is_space s"

section \<open>Calendar dates\<close>

text \<open>
  A date is (year, month, day); Python compares dates chronologically, which is the
  lexicographic order of the triple.
\<close>

type_synonym date = "nat \<times> nat \<times> nat"

definition is_leap :: "nat \<Rightarrow> bool" where
  "is_leap y = (y mod 4 = 0 \<and> (y mod 100 \<noteq> 0 \<or> y mod 400 = 0))"

definition days_in_month :: "nat \<Rightarrow> nat \<Rightarrow> nat" where
  "days_in_month y m =
     (if m = 2 then (if is_leap y then 29 else 28)
      else if m = 4 \<or> m = 6 \<or> m = 9 \<or> m = 11 then 30 else 31)"

text \<open>The dates \<^verbatim>\<open>datetime\<close> can hold: years 1 to 9999.\<close>

fun valid_date :: "date \<Rightarrow> bool" where
  "valid_date (y, m, d) =
     (1 \<le> y \<and> y \<le> 9999 \<and> 1 \<le> m \<and> m \<le> 12 \<and> 1 \<le> d \<and> d \<le> days_in_month y m)"

text \<open>
  \<^verbatim>\<open>strftime('%Y-%m-%d')\<close> of a date: four, two and two digits, padded with zeros.
\<close>

definition pad2 :: "nat \<Rightarrow> string" where
  "pad2 n = [digit_char (n div 10 mod 10), digit_char (n mod 10)]"

definition pad4 :: "nat \<Rightarrow> string" where
  "pad4 n = [digit_char (n div 1000 mod 10), digit_char (n div 100 mod 10),
             digit_char (n div 10 mod 10), digit_char (n mod 10)]"

fun strftime_ymd :: "date \<Rightarrow> string" where
  "strftime_ymd (y, m, d) = pad4 y @ ''-'' @ pad2 m @ ''-'' @ pad2 d"

text \<open>
  \<^verbatim>\<open>datetime.strptime(s, '%Y-%m-%d')\<close>. CPython compiles the format to the regular
  expression
  \<^verbatim>\<open>(?P<Y>\d\d\d\d)-(?P<m>1[0-2]|0[1-9]|[1-9])-(?P<d>3[0-1]|[1-2]\d|0[1-9]|[1-9]| [1-9])\<close>,
  matches it at the start of the string, raises ValueError when the match fails or when
  text remains after it, and then builds the date, which raises ValueError for a day the
  month does not have and for year 0. Each group below returns its alternatives in the
  order the backtracking matcher tries them, each with the rest of the string.
\<close>

fun year_alts :: "string \<Rightarrow> (nat \<times> string) list" where
  "year_alts (a # b # c # d # r) =
     (if is_digit a \<and> is_digit b \<and> is_digit c \<and> is_digit d
      then [(1000 * digit_val a + 100 * digit_val b + 10 * digit_val c + digit_val d, r)]
      else [])"
| "year_alts _ = []"

fun two_chars :: "(char \<Rightarrow> bool) \<Rightarrow> (char \<Rightarrow> bool) \<Rightarrow> string \<Rightarrow> (nat \<times> string) list" where
  "two_chars P Q (a # b # r) =
     (if P a \<and> Q b then [(10 * digit_val a + digit_val b, r)] else [])"
| "two_chars P Q _ = []"

fun one_char :: "(char \<Rightarrow> bool) \<Rightarrow> string \<Rightarrow> (nat \<times> string) list" where
  "one_char P (a # r) = (if P a then [(digit_val a, r)] else [])"
| "one_char P _ = []"

definition in_range :: "char \<Rightarrow> char \<Rightarrow> char \<Rightarrow> bool" where
  "in_range lo hi c = (lo \<le> c \<and> c \<le> hi)"

fun space_digit :: "string \<Rightarrow> (nat \<times> string) list" where
  "space_digit (a # b # r) =
     (if a = CHR '' '' \<and> in_range (CHR ''1'') (CHR ''9'') b then [(digit_val b, r)] else [])"
| "space_digit _ = []"

definition month_alts :: "string \<Rightarrow> (nat \<times> string) list" where
  "month_alts s =
     two_chars (\<lambda>c. c = CHR ''1'') (in_range (CHR ''0'') (CHR ''2'')) s
     @ two_chars (\<lambda>c. c = CHR ''0'') (in_range (CHR ''1'') (CHR ''9'')) s
     @ one_char (in_range (CHR ''1'') (CHR ''9'')) s"

definition day_alts :: "string \<Rightarrow> (nat \<times> string) list" where
  "day_alts s =
     two_chars (\<lambda>c. c = CHR ''3'') (in_range (CHR ''0'') (CHR ''1'')) s
     @ two_chars (in_range (CHR ''1'') (CHR ''2'')) is_digit s
     @ two_chars (\<lambda>c. c = CHR ''0'') (in_range (CHR ''1'') (CHR ''9'')) s
     @ one_char (in_range (CHR ''1'') (CHR ''9'')) s
     @ space_digit s"

fun hyphen :: "string \<Rightarrow> string list" where
  "hyphen (a # r) = (if a = CHR ''-'' then [r] else [])"
| "hyphen [] = []"

text \<open>All the ways the expression matches at the start, the matcher's choice first.\<close>

definition ymd_matches :: "string \<Rightarrow> (date \<times> string) list" where
  "ymd_matches s =
     concat (map (\<lambda>(y, r1).
       concat (map (\<lambda>r2.
         concat (map (\<lambda>(m, r3).
           concat (map (\<lambda>r4.
             map (\<lambda>(d, r5). ((y, m, d), r5)) (day_alts r4))
           (hyphen r3)))
         (month_alts r2)))
       (hyphen r1)))
     (year_alts s))"

definition strptime_ymd :: "string \<Rightarrow> date option" where
  "strptime_ymd s =
     (case ymd_matches s of
        [] \<Rightarrow> None
      | (dt, rest) # _ \<Rightarrow> if rest = [] \<and> valid_date dt then Some dt else None)"

text \<open>
  A well-formed \<^verbatim>\<open>YYYY-MM-DD\<close> string: ten characters, digits around the two
  hyphens, naming a date of the calendar.
\<close>

fun well_formed_ymd :: "string \<Rightarrow> bool" where
  "well_formed_ymd [y1, y2, y3, y4, h1, m1, m2, h2, d1, d2] =
     (is_digit y1 \<and> is_digit y2 \<and> is_digit y3 \<and> is_digit y4 \<and> h1 = CHR ''-''
      \<and> is_digit m1 \<and> is_digit m2 \<and> h2 = CHR ''-'' \<and> is_digit d1 \<and> is_digit d2
      \<and> valid_date (1000 * digit_val y1 + 100 * digit_val y2 + 10 * digit_val y3 + digit_val y4,
                     10 * digit_val m1 + digit_val m2, 10 * digit_val d1 + digit_val d2))"
| "well_formed_ymd _ = False"

section \<open>The tracker's predicates\<close>

text \<open>
  \<^verbatim>\<open>is_today_update\<close>: the date string parsed with \<^verbatim>\<open>'%Y-%m-%d'\<close> is today's date.
  The bare \<^verbatim>\<open>except\<close> turns every failure (no string, no date) into False. The first
  argument is the clock's \<^verbatim>\<open>datetime.now().date()\<close>.
\<close>

fun is_today_update :: "date \<Rightarrow> pyval \<Rightarrow> bool" where
  "is_today_update today (PStr update_date) =
     (case strptime_ymd update_date of None \<Rightarrow> False | Some update_dt \<Rightarrow> update_dt = today)"
| "is_today_update today PNone = False"

text \<open>
  \<^verbatim>\<open>is_duplicate\<close>: the loop over the pool returns True at the first record with the
  candidate's link (when the candidate's link is truthy) or with the candidate's company
  and model name. \<^verbatim>\<open>new_item['link']\<close> is read only after \<^verbatim>\<open>new_item.get('link')\<close>
  was truthy, so the key is there.
\<close>

fun is_duplicate :: "pydict \<Rightarrow> pydict list \<Rightarrow> bool" where
  "is_duplicate new_item [] = False"
| "is_duplicate new_item (item # existing_data) =
     (if truthy (py_get new_item ''link'') \<and> py_get item ''link'' = py_get new_item ''link''
      then True
      else if py_get item ''company'' = py_get new_item ''company''
              \<and> py_get item ''model_name'' = py_get new_item ''model_name''
      then True
      else is_duplicate new_item existing_data)"

section \<open>Normalising a GitHub release\<close>

text \<open>
  \<^verbatim>\<open>re.sub(r'^v?(\d+\.)*\d+', '', model_name)\<close>. \<open>digit_groups\<close> matches
  \<^verbatim>\<open>(\d+\.)*\d+\<close> at the start of a string as the backtracking matcher does and returns
  the rest: \<^verbatim>\<open>\d+\<close> takes every digit there is; when a dot follows, the group is taken and
  the matcher goes on behind it; when it fails there, it gives the group up and ends the
  match with the digits alone. The expression is anchored at the start and never matches
  the empty string, so at most one match is replaced.
\<close>

function digit_groups :: "string \<Rightarrow> string option" where
  "digit_groups s =
     (if takeWhile is_digit s = [] then None
      else (case dropWhile is_digit s of
              [] \<Rightarrow> Some []
            | c # r \<Rightarrow>
                if c = CHR ''.''
                then (case digit_groups r of Some rest \<Rightarrow> Some rest | None \<Rightarrow> Some (c # r))
                else Some (c # r)))"
  by pat_completeness auto
termination
proof (relation "measure length")
  show "wf (measure length)" by simp
next
  fix s :: string and c r
  assume "dropWhile is_digit s = c # r"
  then have "length (c # r) \<le> length s"
    using length_dropWhile_le [of is_digit s] by simp
  then show "(r, s) \<in> measure length" by simp
qed

text \<open>\<^verbatim>\<open>v?\<close> takes a leading \<open>v\<close> first and gives it back when the rest fails.\<close>

definition version_match :: "string \<Rightarrow> string option" where
  "version_match s =
     (case (case s of c # t \<Rightarrow> if c = CHR ''v'' then digit_groups t else None | [] \<Rightarrow> None) of
        Some rest \<Rightarrow> Some rest
      | None \<Rightarrow> digit_groups s)"

definition re_sub_version :: "string \<Rightarrow> string" where
  "re_sub_version s = (case version_match s of Some rest \<Rightarrow> rest | None \<Rightarrow> s)"

text \<open>A value inside an f-string.\<close>

fun py_str :: "pyval \<Rightarrow> string" where
  "py_str (PStr s) = s"
| "py_str PNone = ''None''"

text \<open>
  \<^verbatim>\<open>extract_model_info_from_github\<close>. The release is the dictionary of the GitHub API;
  \<open>dateutil_parse\<close> stands for \<^verbatim>\<open>dateutil.parser.parse\<close> reduced to the date, None when it
  raises. Every exception of the body (a missing \<^verbatim>\<open>published_at\<close>, a \<^verbatim>\<open>null\<close> where a
  string is needed) is caught and gives None.
\<close>

definition extract_model_info_from_github ::
  "(string \<Rightarrow> date option) \<Rightarrow> pydict \<Rightarrow> string \<Rightarrow> pydict option" where
  "extract_model_info_from_github dateutil_parse release company =
     (case release ''published_at'' of
        None \<Rightarrow> None
      | Some PNone \<Rightarrow> None
      | Some (PStr ts) \<Rightarrow>
          (case dateutil_parse ts of
             None \<Rightarrow> None
           | Some dt \<Rightarrow>
               (case py_get_default release ''tag_name''
                       (py_get_default release ''name'' (PStr ''Unknown'')) of
                  PNone \<Rightarrow> None
                | PStr tag \<Rightarrow>
                    (let stripped = strip_ws (strip_dash (re_sub_version tag));
                         model_name =
                           (if stripped = []
                            then company @ '' Model ''
                                 @ py_str (py_get_default release ''tag_name'' (PStr ''Unknown''))
                            else stripped)
                     in (case py_get_default release ''body'' (PStr []) of
                           PNone \<Rightarrow> None
                         | PStr body \<Rightarrow>
                             Some [''company'' \<mapsto> PStr company,
                                   ''model_name'' \<mapsto> PStr model_name,
                                   ''update_date'' \<mapsto> PStr (strftime_ymd dt),
                                   ''features'' \<mapsto> PStr (take 500 body),
                                   ''source'' \<mapsto> PStr ''GitHub'',
                                   ''link'' \<mapsto> py_get_default release ''html_url'' (PStr [])])))))"

section \<open>Normalising a Hugging Face model\<close>

record hf_model =
  lastModified :: "date option"
  modelId :: "string option"
  tags :: "string list option"

text \<open>\<^verbatim>\<open>sep.join(xs)\<close>.\<close>

fun join :: "string \<Rightarrow> string list \<Rightarrow> string" where
  "join sep [] = []"
| "join sep [x] = x"
| "join sep (x # y # ys) = x @ sep @ join sep (y # ys)"

text \<open>
  \<^verbatim>\<open>extract_model_info_from_hf\<close>: a model without \<^verbatim>\<open>modelId\<close> raises inside the
  \<^verbatim>\<open>try\<close> and gives None; a missing or empty \<^verbatim>\<open>lastModified\<close> is replaced by today.
\<close>

definition extract_model_info_from_hf :: "date \<Rightarrow> hf_model \<Rightarrow> string \<Rightarrow> pydict option" where
  "extract_model_info_from_hf today model company =
     (let update_date = (case lastModified model of
                           Some dt \<Rightarrow> strftime_ymd dt
                         | None \<Rightarrow> strftime_ymd today)
      in (case modelId model of
            None \<Rightarrow> None
          | Some model_name \<Rightarrow>
              (let features = (case tags model of
                                 None \<Rightarrow> []
                               | Some ts \<Rightarrow> if ts = [] then []
                                            else ''Tags: '' @ join '', '' (take 5 ts))
               in Some [''company'' \<mapsto> PStr company,
                        ''model_name'' \<mapsto> PStr model_name,
                        ''update_date'' \<mapsto> PStr update_date,
                        ''features'' \<mapsto> PStr features,
                        ''source'' \<mapsto> PStr ''Hugging Face'',
                        ''link'' \<mapsto> PStr (''https://huggingface.co/'' @ model_name)])))"

section \<open>The configuration table\<close>

record profile =
  keyword_list :: "string list"
  api_endpoints :: "string list"
  official_sites :: "string list"

text \<open>
  \<^verbatim>\<open>MODEL_PATTERNS\<close>, in the order of the dictionary; the field \<open>keyword_list\<close> is the
  entry \<^verbatim>\<open>'keywords'\<close>. The two Chinese entries are their UTF-8 bytes.
\<close>

definition MODEL_PATTERNS :: "(string \<times> profile) list" where
  "MODEL_PATTERNS =
   [(''OpenAI'', \<lparr>keyword_list = [''gpt'', ''chatgpt'', ''o1'', ''o3'', ''davinci'', ''curie'', ''babbage'', ''ada''],
       api_endpoints = [''https://api.github.com/repos/openai/openai-python/releases''],
       official_sites = [''https://openai.com/blog/rss.xml'']\<rparr>),
    (''Anthropic'', \<lparr>keyword_list = [''claude'', ''sonnet'', ''opus'', ''haiku''],
       api_endpoints = [''https://api.github.com/repos/anthropics/anthropic-sdk-python/releases''],
       official_sites = [''https://www.anthropic.com/news.rss'']\<rparr>),
    (''Google'', \<lparr>keyword_list = [''gemini'', ''bard'', ''palm'', ''lamda'', ''pathways''],
       api_endpoints = [''https://api.github.com/repos/google/generative-ai-python/releases''],
       official_sites = [''https://blog.google/technology/ai/rss/'']\<rparr>),
    (''Meta'', \<lparr>keyword_list = [''llama'', ''code llama'', ''purple llama''],
       api_endpoints = [''https://api.github.com/repos/facebookresearch/llama/releases''],
       official_sites = [''https://ai.meta.com/blog/rss/'']\<rparr>),
    (''xAI'', \<lparr>keyword_list = [''grok''], api_endpoints = [], official_sites = []\<rparr>),
    (''DeepSeek'', \<lparr>keyword_list = [''deepseek''],
       api_endpoints = [''https://api.github.com/repos/deepseek-ai/DeepSeek-LLM/releases''],
       official_sites = []\<rparr>),
    (''Alibaba'', \<lparr>keyword_list = [''qwen'',
         [CHR 0xE9, CHR 0x80, CHR 0x9A, CHR 0xE4, CHR 0xB9, CHR 0x89], ''tongyi''],
       api_endpoints = [''https://api.github.com/repos/QwenLM/Qwen/releases''],
       official_sites = []\<rparr>),
    (''Moonshot'', \<lparr>keyword_list = [''kimi'', ''moonshot''], api_endpoints = [], official_sites = []\<rparr>),
    (''ByteDance'', \<lparr>keyword_list = [''doubao'',
         [CHR 0xE8, CHR 0xB1, CHR 0x86, CHR 0xE5, CHR 0x8C, CHR 0x85], ''bytedance''],
       api_endpoints = [], official_sites = []\<rparr>)]"

section \<open>The world outside the program\<close>

text \<open>
  The store file is absent, unreadable (the operating system refuses to open it), or
  holds bytes. The other fields are what the libraries answer: the clock, the JSON parser
  on a decoded text (None for \<^verbatim>\<open>JSONDecodeError\<close>; a parsed store is a list of records),
  \<^verbatim>\<open>feedparser.parse\<close>, the HTTP session with the response's status and decoded JSON,
  \<^verbatim>\<open>dateutil.parser.parse\<close>, and \<^verbatim>\<open>HfApi.list_models\<close>; None where the call raises.
  The clock is read once: a run does not cross midnight.
\<close>

datatype store_file = Absent | Unreadable | Present string

record rss_entry =
  title :: "string option"
  summary :: "string option"
  published_parsed :: "date option"
  link :: "string option"

record world =
  now_date :: date
  data_file :: store_file
  json_loads :: "string \<Rightarrow> pydict list option"
  feedparser_parse :: "string \<Rightarrow> rss_entry list option"
  session_get :: "string \<Rightarrow> (nat \<times> pydict list) option"
  dateutil_parse :: "string \<Rightarrow> date option"
  list_models :: "string \<Rightarrow> hf_model list option"

section \<open>Loading and saving the store\<close>

text \<open>
  The file is opened with \<^verbatim>\<open>encoding='utf-8'\<close>, so reading it decodes the bytes and
  raises \<^verbatim>\<open>UnicodeDecodeError\<close> on a sequence that is not UTF-8 (the well-formed byte
  sequences of the Unicode standard).
\<close>

definition cont_byte :: "char \<Rightarrow> bool" where
  "cont_byte c = (128 \<le> (of_char c :: nat) \<and> (of_char c :: nat) \<le> 191)"

definition byte_in :: "nat \<Rightarrow> nat \<Rightarrow> char \<Rightarrow> bool" where
  "byte_in lo hi c = (lo \<le> (of_char c :: nat) \<and> (of_char c :: nat) \<le> hi)"

fun valid_utf8 :: "string \<Rightarrow> bool" where
  "valid_utf8 [] = True"
| "valid_utf8 (a # r) =
     (if byte_in 0 127 a then valid_utf8 r
      else if byte_in 194 223 a then
        (case r of b # r1 \<Rightarrow> cont_byte b \<and> valid_utf8 r1 | _ \<Rightarrow> False)
      else if byte_in 224 239 a then
        (case r of
           b # c # r2 \<Rightarrow>
             (if of_char a = (224::nat) then byte_in 160 191 b
              else if of_char a = (237::nat) then byte_in 128 159 b
              else cont_byte b)
             \<and> cont_byte c \<and> valid_utf8 r2
         | _ \<Rightarrow> False)
      else if byte_in 240 244 a then
        (case r of
           b # c # d # r3 \<Rightarrow>
             (if of_char a = (240::nat) then byte_in 144 191 b
              else if of_char a = (244::nat) then byte_in 128 143 b
              else cont_byte b)
             \<and> cont_byte c \<and> cont_byte d \<and> valid_utf8 r3
         | _ \<Rightarrow> False)
      else False)"

text \<open>
  \<^verbatim>\<open>load_existing_data\<close>: the \<^verbatim>\<open>except\<close> clause names \<^verbatim>\<open>FileNotFoundError\<close> and
  \<^verbatim>\<open>json.JSONDecodeError\<close>; any other exception leaves the function.
\<close>

definition load_existing_data :: "world \<Rightarrow> py_error + pydict list" where
  "load_existing_data w =
     (case data_file w of
        Absent \<Rightarrow> Inr []
      | Unreadable \<Rightarrow> Inl PermissionError
      | Present bytes \<Rightarrow>
          if valid_utf8 bytes
          then (case json_loads w bytes of None \<Rightarrow> Inr [] | Some records \<Rightarrow> Inr records)
          else Inl UnicodeDecodeError)"

text \<open>
  The sort key of \<^verbatim>\<open>save_data\<close>: \<^verbatim>\<open>datetime.strptime(x['update_date'], '%Y-%m-%d')\<close>.
\<close>

definition date_key :: "pydict \<Rightarrow> py_error + date" where
  "date_key x =
     (case x ''update_date'' of
        None \<Rightarrow> Inl KeyError
      | Some PNone \<Rightarrow> Inl TypeError
      | Some (PStr s) \<Rightarrow> (case strptime_ymd s of None \<Rightarrow> Inl ValueError | Some d \<Rightarrow> Inr d))"

text \<open>\<^verbatim>\<open>list.sort\<close> computes the key of every element first, in order; the first error leaves.\<close>

fun date_keys :: "pydict list \<Rightarrow> py_error + date list" where
  "date_keys [] = Inr []"
| "date_keys (x # xs) =
     (case date_key x of
        Inl e \<Rightarrow> Inl e
      | Inr k \<Rightarrow> (case date_keys xs of Inl e \<Rightarrow> Inl e | Inr ks \<Rightarrow> Inr (k # ks)))"

text \<open>
  \<^verbatim>\<open>save_data\<close>: \<^verbatim>\<open>data.sort(key=..., reverse=True)\<close> and the dump of the sorted list,
  which is the new content of the store. The sort is stable; with \<^verbatim>\<open>reverse=True\<close>
  CPython reverses the list, sorts it ascending and reverses it again.
\<close>

definition save_data :: "pydict list \<Rightarrow> py_error + pydict list" where
  "save_data data =
     (case date_keys data of
        Inl e \<Rightarrow> Inl e
      | Inr ks \<Rightarrow> Inr (map snd (rev (sort_key fst (rev (zip ks data))))))"

section \<open>The three source stages\<close>

definition release_words :: "string list" where
  "release_words = [''release'', ''launch'', ''announce'', ''unveil'', ''introduce'', ''available'', ''new'']"

definition keyword_hit :: "string list \<Rightarrow> string \<Rightarrow> string \<Rightarrow> bool" where
  "keyword_hit kws title_lower summary_lower =
     py_any (\<lambda>keyword. py_in (lower keyword) title_lower \<or> py_in (lower keyword) summary_lower) kws"

definition release_hit :: "string \<Rightarrow> bool" where
  "release_hit title_lower = py_any (\<lambda>word. py_in word title_lower) release_words"

text \<open>
  The loop over the entries of one feed. An entry without \<^verbatim>\<open>title\<close> or \<^verbatim>\<open>link\<close> raises
  AttributeError, which the \<^verbatim>\<open>try\<close> around the feed catches: the rest of the feed is
  skipped and what was appended before stays.
\<close>

fun rss_entries ::
  "date \<Rightarrow> string \<Rightarrow> string list \<Rightarrow> rss_entry list \<Rightarrow> pydict list \<Rightarrow> pydict list" where
  "rss_entries today company kws [] updates = updates"
| "rss_entries today company kws (entry # entries) updates =
     (case title entry of
        None \<Rightarrow> updates
      | Some t \<Rightarrow>
          (let title_lower = lower t;
               summary_lower = lower (case summary entry of None \<Rightarrow> [] | Some s \<Rightarrow> s)
           in if keyword_hit kws title_lower summary_lower \<and> release_hit title_lower
              then
                (let update_date = (case published_parsed entry of
                                      Some d \<Rightarrow> strftime_ymd d
                                    | None \<Rightarrow> strftime_ymd today)
                 in if is_today_update today (PStr update_date)
                    then (case link entry of
                            None \<Rightarrow> updates
                          | Some l \<Rightarrow>
                              rss_entries today company kws entries
                                (updates @
                                 [[''company'' \<mapsto> PStr company,
                                   ''model_name'' \<mapsto> PStr t,
                                   ''update_date'' \<mapsto> PStr update_date,
                                   ''features'' \<mapsto>
                                      PStr (take 300 (case summary entry of None \<Rightarrow> [] | Some s \<Rightarrow> s)),
                                   ''source'' \<mapsto> PStr ''Official RSS'',
                                   ''link'' \<mapsto> PStr l]]))
                    else rss_entries today company kws entries updates)
              else rss_entries today company kws entries updates))"

definition rss_feed :: "world \<Rightarrow> string \<Rightarrow> profile \<Rightarrow> string \<Rightarrow> pydict list \<Rightarrow> pydict list" where
  "rss_feed w company info rss_url updates =
     (case feedparser_parse w rss_url of
        None \<Rightarrow> updates
      | Some entries \<Rightarrow>
          rss_entries (now_date w) company (keyword_list info) (take 5 entries) updates)"

definition fetch_official_rss_updates :: "world \<Rightarrow> (string \<times> profile) list \<Rightarrow> pydict list" where
  "fetch_official_rss_updates w patterns =
     fold (\<lambda>(company, info) updates.
             fold (rss_feed w company info) (official_sites info) updates)
          patterns []"

text \<open>The body of all three acceptance loops: append unless duplicate of store or batch.\<close>

definition accept :: "pydict list \<Rightarrow> pydict \<Rightarrow> pydict list \<Rightarrow> pydict list" where
  "accept existing_data update new_updates =
     (if \<not> is_duplicate update (existing_data @ new_updates)
      then new_updates @ [update] else new_updates)"

definition rss_stage :: "world \<Rightarrow> (string \<times> profile) list \<Rightarrow> pydict list \<Rightarrow> pydict list \<Rightarrow> pydict list" where
  "rss_stage w patterns existing_data new_updates =
     fold (accept existing_data) (fetch_official_rss_updates w patterns) new_updates"

definition fetch_github_releases :: "world \<Rightarrow> string \<Rightarrow> pydict list" where
  "fetch_github_releases w repo_url =
     (case session_get w repo_url of
        None \<Rightarrow> []
      | Some (status_code, releases) \<Rightarrow> if status_code = 200 then take 5 releases else [])"

definition github_release ::
  "world \<Rightarrow> string \<Rightarrow> pydict list \<Rightarrow> pydict \<Rightarrow> pydict list \<Rightarrow> pydict list" where
  "github_release w company existing_data release new_updates =
     (case extract_model_info_from_github (dateutil_parse w) release company of
        None \<Rightarrow> new_updates
      | Some model_info \<Rightarrow>
          if is_today_update (now_date w) (py_get model_info ''update_date'')
          then accept existing_data model_info new_updates
          else new_updates)"

definition github_stage :: "world \<Rightarrow> (string \<times> profile) list \<Rightarrow> pydict list \<Rightarrow> pydict list \<Rightarrow> pydict list" where
  "github_stage w patterns existing_data new_updates =
     fold (\<lambda>(company, info) new_updates.
             fold (\<lambda>api_endpoint new_updates.
                     fold (github_release w company existing_data)
                          (fetch_github_releases w api_endpoint) new_updates)
                  (api_endpoints info) new_updates)
          patterns new_updates"

definition fetch_huggingface_models :: "world \<Rightarrow> string list \<Rightarrow> hf_model list" where
  "fetch_huggingface_models w company_keywords =
     concat (map (\<lambda>keyword. case list_models w keyword of None \<Rightarrow> [] | Some ms \<Rightarrow> ms)
                 company_keywords)"

text \<open>
  The loop over one company's models, with its counter \<^verbatim>\<open>today_count\<close> and the
  \<^verbatim>\<open>break\<close> at 2.
\<close>

fun hf_models ::
  "date \<Rightarrow> string \<Rightarrow> pydict list \<Rightarrow> hf_model list \<Rightarrow> nat \<Rightarrow> pydict list \<Rightarrow> pydict list" where
  "hf_models today company existing_data [] today_count new_updates = new_updates"
| "hf_models today company existing_data (model # models) today_count new_updates =
     (if today_count \<ge> 2 then new_updates
      else
        (case extract_model_info_from_hf today model company of
           None \<Rightarrow> hf_models today company existing_data models today_count new_updates
         | Some model_info \<Rightarrow>
             if is_today_update today (py_get model_info ''update_date'')
                \<and> \<not> is_duplicate model_info (existing_data @ new_updates)
             then hf_models today company existing_data models (today_count + 1)
                    (new_updates @ [model_info])
             else hf_models today company existing_data models today_count new_updates))"

definition hf_company ::
  "world \<Rightarrow> pydict list \<Rightarrow> string \<times> profile \<Rightarrow> pydict list \<Rightarrow> pydict list" where
  "hf_company w existing_data = (\<lambda>(company, info) new_updates.
     hf_models (now_date w) company existing_data
       (fetch_huggingface_models w (keyword_list info)) 0 new_updates)"

definition hf_stage :: "world \<Rightarrow> (string \<times> profile) list \<Rightarrow> pydict list \<Rightarrow> pydict list \<Rightarrow> pydict list" where
  "hf_stage w patterns existing_data new_updates =
     fold (hf_company w existing_data) patterns new_updates"

section \<open>One run\<close>

text \<open>
  \<^verbatim>\<open>fetch_all_updates\<close>: load, the three stages in order, and the save when something was
  accepted. The result is the error that ended the run, or the accepted records with the
  content written to the store (None when the store was left untouched).
\<close>

record run_result =
  new_updates :: "pydict list"
  written :: "pydict list option"

definition collect_updates :: "world \<Rightarrow> (string \<times> profile) list \<Rightarrow> pydict list \<Rightarrow> pydict list" where
  "collect_updates w patterns existing_data =
     hf_stage w patterns existing_data
       (github_stage w patterns existing_data
          (rss_stage w patterns existing_data []))"

definition run :: "(string \<times> profile) list \<Rightarrow> world \<Rightarrow> py_error + run_result" where
  "run patterns w =
     (case load_existing_data w of
        Inl e \<Rightarrow> Inl e
      | Inr existing_data \<Rightarrow>
          (let new = collect_updates w patterns existing_data
           in if new \<noteq> []
              then (case save_data (existing_data @ new) of
                      Inl e \<Rightarrow> Inl e
                    | Inr all_data \<Rightarrow> Inr \<lparr>new_updates = new, written = Some all_data\<rparr>)
              else Inr \<lparr>new_updates = new, written = None\<rparr>))"

definition fetch_all_updates :: "world \<Rightarrow> py_error + run_result" where
  "fetch_all_updates w = run MODEL_PATTERNS w"

section \<open>Uniqueness of the store\<close>

text \<open>
  Two records are in conflict when they share a non-empty link or share company and model
  name: the test \<^verbatim>\<open>is_duplicate\<close> makes between the candidate and one record of the pool.
  A store is unique when no two of its records, at different positions, are in conflict.
\<close>

definition conflict :: "pydict \<Rightarrow> pydict \<Rightarrow> bool" where
  "conflict a b =
     ((truthy (py_get a ''link'') \<and> py_get b ''link'' = py_get a ''link'')
      \<or> (py_get b ''company'' = py_get a ''company''
          \<and> py_get b ''model_name'' = py_get a ''model_name''))"

fun unique_store :: "pydict list \<Rightarrow> bool" where
  "unique_store [] = True"
| "unique_store (x # xs) = ((\<forall>y \<in> set xs. \<not> conflict x y) \<and> unique_store xs)"

text \<open>
  \<open>extends today existing_data new0 new1\<close>: the batch \<open>new1\<close> is \<open>new0\<close> followed by records
  that were appended one at a time, each dated today and each not a duplicate of the store
  and the batch before it.
\<close>

inductive extends :: "date \<Rightarrow> pydict list \<Rightarrow> pydict list \<Rightarrow> pydict list \<Rightarrow> bool"
  for today :: date and existing_data :: "pydict list" and new0 :: "pydict list" where
  same: "extends today existing_data new0 new0"
| more: "extends today existing_data new0 new1 \<Longrightarrow>
         is_today_update today (py_get c ''update_date'') \<Longrightarrow>
         \<not> is_duplicate c (existing_data @ new1) \<Longrightarrow>
         extends today existing_data new0 (new1 @ [c])"

section \<open>Example worlds\<close>

text \<open>
  The store of the spec's Scenario B: one record with link \<^verbatim>\<open>https://x/y\<close>; a feed entry
  with the same link, published today; the world in which only that feed answers.
\<close>

definition scenario_b_stored :: pydict where
  "scenario_b_stored =
     [''company'' \<mapsto> PStr ''Anthropic'', ''model_name'' \<mapsto> PStr ''Claude 3'',
      ''update_date'' \<mapsto> PStr ''2024-03-04'', ''features'' \<mapsto> PStr ''A model family'',
      ''source'' \<mapsto> PStr ''Official RSS'', ''link'' \<mapsto> PStr ''https://x/y'']"

definition scenario_b_entry :: rss_entry where
  "scenario_b_entry =
     \<lparr>title = Some ''Introducing the new Claude'', summary = Some ''Claude is here'',
      published_parsed = Some (2024, 5, 17), link = Some ''https://x/y''\<rparr>"

definition scenario_b_world :: world where
  "scenario_b_world =
     \<lparr>now_date = (2024, 5, 17),
      data_file = Present ''[...]'',
      json_loads = (\<lambda>text. Some [scenario_b_stored]),
      feedparser_parse =
        (\<lambda>url. if url = ''https://www.anthropic.com/news.rss'' then Some [scenario_b_entry] else Some []),
      session_get = (\<lambda>url. None),
      dateutil_parse = (\<lambda>s. None),
      list_models = (\<lambda>keyword. None)\<rparr>"

text \<open>The candidate the RSS stage builds from that entry.\<close>

definition scenario_b_candidate :: pydict where
  "scenario_b_candidate =
     [''company'' \<mapsto> PStr ''Anthropic'', ''model_name'' \<mapsto> PStr ''Introducing the new Claude'',
      ''update_date'' \<mapsto> PStr ''2024-05-17'', ''features'' \<mapsto> PStr ''Claude is here'',
      ''source'' \<mapsto> PStr ''Official RSS'', ''link'' \<mapsto> PStr ''https://x/y'']"

text \<open>
  A second world: the feed of one company answers with the entry above, with an entry
  published the day before, and with a new one, which has no date of its own and so is
  dated today.
\<close>

definition fresh_entry :: rss_entry where
  "fresh_entry =
     \<lparr>title = Some ''Claude 3.5 now available'', summary = None,
      published_parsed = None, link = Some ''https://x/z''\<rparr>"

definition fresh_record :: pydict where
  "fresh_record =
     [''company'' \<mapsto> PStr ''Anthropic'', ''model_name'' \<mapsto> PStr ''Claude 3.5 now available'',
      ''update_date'' \<mapsto> PStr ''2024-05-17'', ''features'' \<mapsto> PStr [],
      ''source'' \<mapsto> PStr ''Official RSS'', ''link'' \<mapsto> PStr ''https://x/z'']"

definition stale_entry :: rss_entry where
  "stale_entry =
     \<lparr>title = Some ''Claude 2 released'', summary = None,
      published_parsed = Some (2024, 5, 16), link = Some ''https://x/old''\<rparr>"

definition two_entry_world :: world where
  "two_entry_world =
     scenario_b_world\<lparr>feedparser_parse := (\<lambda>url. Some [scenario_b_entry, stale_entry, fresh_entry])\<rparr>"

definition one_company :: "(string \<times> profile) list" where
  "one_company =
     [(''Anthropic'', \<lparr>keyword_list = [''claude''], api_endpoints = [],
                       official_sites = [''https://www.anthropic.com/news.rss'']\<rparr>)]"



text \<open>The record the RSS loop appends for an entry with title \<open>t\<close> and link \<open>l\<close>.\<close>

definition rss_record :: "date \<Rightarrow> string \<Rightarrow> rss_entry \<Rightarrow> string \<Rightarrow> string \<Rightarrow> pydict" where
  "rss_record today company entry t l =
     [''company'' \<mapsto> PStr company,
      ''model_name'' \<mapsto> PStr t,
      ''update_date'' \<mapsto>
         PStr (case published_parsed entry of Some d \<Rightarrow> strftime_ymd d | None \<Rightarrow> strftime_ymd today),
      ''features'' \<mapsto> PStr (take 300 (case summary entry of None \<Rightarrow> [] | Some s \<Rightarrow> s)),
      ''source'' \<mapsto> PStr ''Official RSS'',
      ''link'' \<mapsto> PStr l]"

text \<open>The guards an entry passes before its record is appended.\<close>

definition rss_passes :: "date \<Rightarrow> string list \<Rightarrow> rss_entry \<Rightarrow> string \<Rightarrow> bool" where
  "rss_passes today kws entry t \<longleftrightarrow>
     keyword_hit kws (lower t) (lower (case summary entry of None \<Rightarrow> [] | Some s \<Rightarrow> s))
     \<and> release_hit (lower t)
     \<and> is_today_update today
          (PStr (case published_parsed entry of Some d \<Rightarrow> strftime_ymd d | None \<Rightarrow> strftime_ymd today))"


definition fresh_entry_again :: rss_entry where
  "fresh_entry_again = fresh_entry\<lparr>link := Some ''https://x/again''\<rparr>"

definition fresh_record_again :: pydict where
  "fresh_record_again = fresh_record(''link'' \<mapsto> PStr ''https://x/again'')"

definition same_title_world :: world where
  "same_title_world =
     scenario_b_world\<lparr>data_file := Absent,
                       feedparser_parse := (\<lambda>url. Some [fresh_entry, fresh_entry_again])\<rparr>"

text \<open>
  The spec's Scenario D: the search for the one keyword of DeepSeek returns three models,
  all last modified today.
\<close>

definition deepseek_only :: "(string \<times> profile) list" where
  "deepseek_only =
     [(''DeepSeek'', \<lparr>keyword_list = [''deepseek''], api_endpoints = [], official_sites = []\<rparr>)]"

definition scenario_d_model :: "string \<Rightarrow> hf_model" where
  "scenario_d_model name =
     \<lparr>lastModified = Some (2024, 5, 17), modelId = Some name, tags = Some [''text-generation'']\<rparr>"

definition scenario_d_world :: world where
  "scenario_d_world =
     scenario_b_world\<lparr>data_file := Absent,
       feedparser_parse := (\<lambda>url. None),
       list_models := (\<lambda>keyword. Some [scenario_d_model ''deepseek-ai/a'',
                                          scenario_d_model ''deepseek-ai/b'',
                                          scenario_d_model ''deepseek-ai/c''])\<rparr>"

definition scenario_d_record :: "string \<Rightarrow> pydict" where
  "scenario_d_record name =
     [''company'' \<mapsto> PStr ''DeepSeek'', ''model_name'' \<mapsto> PStr name,
      ''update_date'' \<mapsto> PStr ''2024-05-17'', ''features'' \<mapsto> PStr ''Tags: text-generation'',
      ''source'' \<mapsto> PStr ''Hugging Face'', ''link'' \<mapsto> PStr (''https://huggingface.co/'' @ name)]"

section \<open>Version prefixes\<close>



text \<open>
  Following the spec's words: the prefix pattern with one or more \<^verbatim>\<open><digits>.\<close> groups
  before the trailing digits, that is \<^verbatim>\<open>^v?(\d+\.)+\d+\<close>, and the model name it gives.
\<close>

definition spec_digit_groups :: "string \<Rightarrow> string option" where
  "spec_digit_groups s =
     (if takeWhile is_digit s = [] then None
      else (case dropWhile is_digit s of
              [] \<Rightarrow> None
            | c # r \<Rightarrow> if c = CHR ''.'' then digit_groups r else None))"

definition spec_version_match :: "string \<Rightarrow> string option" where
  "spec_version_match s =
     (case (case s of c # t \<Rightarrow> if c = CHR ''v'' then spec_digit_groups t else None | [] \<Rightarrow> None) of
        Some rest \<Rightarrow> Some rest
      | None \<Rightarrow> spec_digit_groups s)"

definition spec_model_name :: "string \<Rightarrow> string \<Rightarrow> string" where
  "spec_model_name company tag =
     (let stripped = strip_ws (strip_dash (case spec_version_match tag of
                                             Some rest \<Rightarrow> rest | None \<Rightarrow> tag))
      in if stripped = [] then company @ '' Model '' @ tag else stripped)"

text \<open>
  The release of the spec's Scenario A with the record made of it, and a release whose tag
  has no dot. The date parser of the examples answers the 17th of May 2024 to every text.
\<close>

definition may17_parser :: "string \<Rightarrow> date option" where
  "may17_parser s = Some (2024, 5, 17)"

definition scenario_a_record :: pydict where
  "scenario_a_record =
     [''company'' \<mapsto> PStr ''OpenAI'', ''model_name'' \<mapsto> PStr ''turbo'',
      ''update_date'' \<mapsto> PStr ''2024-05-17'', ''features'' \<mapsto> PStr ''Faster.'',
      ''source'' \<mapsto> PStr ''GitHub'',
      ''link'' \<mapsto> PStr ''https://github.com/openai/openai-python/releases/tag/v2.1-turbo'']"

definition scenario_a_release :: pydict where
  "scenario_a_release =
     [''tag_name'' \<mapsto> PStr ''v2.1-turbo'', ''name'' \<mapsto> PStr ''Release 2.1'',
      ''published_at'' \<mapsto> PStr ''2024-05-17T08:00:00Z'', ''body'' \<mapsto> PStr ''Faster.'',
      ''html_url'' \<mapsto> PStr ''https://github.com/openai/openai-python/releases/tag/v2.1-turbo'']"


text \<open>The record \<^verbatim>\<open>extract_model_info_from_github\<close> returns, and the model name in it.\<close>

definition github_record :: "string \<Rightarrow> string \<Rightarrow> date \<Rightarrow> string \<Rightarrow> pyval \<Rightarrow> pydict" where
  "github_record company model_name dt body url =
     [''company'' \<mapsto> PStr company,
      ''model_name'' \<mapsto> PStr model_name,
      ''update_date'' \<mapsto> PStr (strftime_ymd dt),
      ''features'' \<mapsto> PStr (take 500 body),
      ''source'' \<mapsto> PStr ''GitHub'',
      ''link'' \<mapsto> url]"

definition github_model_name :: "string \<Rightarrow> pydict \<Rightarrow> string \<Rightarrow> string" where
  "github_model_name company release tag =
     (if strip_ws (strip_dash (re_sub_version tag)) = []
      then company @ '' Model '' @ py_str (py_get_default release ''tag_name'' (PStr ''Unknown''))
      else strip_ws (strip_dash (re_sub_version tag)))"




section \<open>Properties of the acceptance loops\<close>

lemma conflict_sym: "conflict a b \<Longrightarrow> conflict b a"
  by (auto simp: conflict_def)

lemma is_duplicate_conflict: "is_duplicate c pool \<longleftrightarrow> (\<exists>item \<in> set pool. conflict c item)"
  by (induction pool) (auto simp: conflict_def)

lemma is_duplicate_append:
  "is_duplicate c (xs @ ys) \<longleftrightarrow> is_duplicate c xs \<or> is_duplicate c ys"
  by (auto simp: is_duplicate_conflict)

lemma unique_store_snoc:
  "unique_store (xs @ [c]) \<longleftrightarrow> unique_store xs \<and> \<not> is_duplicate c xs"
  by (induction xs) (auto simp: is_duplicate_conflict dest: conflict_sym)

lemma unique_store_append:
  "unique_store (xs @ ys) \<longleftrightarrow>
     unique_store xs \<and> unique_store ys \<and> (\<forall>x \<in> set xs. \<forall>y \<in> set ys. \<not> conflict x y)"
  by (induction xs) auto

lemma unique_store_rev: "unique_store (rev xs) = unique_store xs"
  by (induction xs) (auto simp: unique_store_append dest: conflict_sym)

lemma unique_store_nth:
  "unique_store xs \<longleftrightarrow>
     (\<forall>i < length xs. \<forall>j < length xs. i \<noteq> j \<longrightarrow> \<not> conflict (xs ! i) (xs ! j))"
proof (induction xs)
  case Nil
  then show ?case by simp
next
  case (Cons x xs)
  have "(\<forall>i < length (x # xs). \<forall>j < length (x # xs). i \<noteq> j \<longrightarrow> \<not> conflict ((x # xs) ! i) ((x # xs) ! j))
        \<longleftrightarrow> (\<forall>y \<in> set xs. \<not> conflict x y) \<and>
            (\<forall>i < length xs. \<forall>j < length xs. i \<noteq> j \<longrightarrow> \<not> conflict (xs ! i) (xs ! j))"
    (is "?L \<longleftrightarrow> ?A \<and> ?B")
  proof
    assume L: ?L
    have ?A
    proof
      fix y assume "y \<in> set xs"
      then obtain j where "j < length xs" "xs ! j = y" by (auto simp: in_set_conv_nth)
      with L [rule_format, of 0 "Suc j"] show "\<not> conflict x y" by simp
    qed
    moreover have ?B
    proof (intro allI impI)
      fix i j assume "i < length xs" "j < length xs" "i \<noteq> j"
      with L [rule_format, of "Suc i" "Suc j"] show "\<not> conflict (xs ! i) (xs ! j)" by simp
    qed
    ultimately show "?A \<and> ?B" ..
  next
    assume AB: "?A \<and> ?B"
    show ?L
    proof (intro allI impI)
      fix i j assume ij: "i < length (x # xs)" "j < length (x # xs)" "i \<noteq> j"
      show "\<not> conflict ((x # xs) ! i) ((x # xs) ! j)"
      proof (cases i)
        case 0
        with ij obtain j' where "j = Suc j'" by (cases j) auto
        with 0 ij AB show ?thesis by simp
      next
        case (Suc i')
        show ?thesis
        proof (cases j)
          case 0
          with Suc ij AB have "\<not> conflict x (xs ! i')" by simp
          with 0 Suc show ?thesis by (auto dest: conflict_sym)
        next
          case (Suc j')
          with \<open>i = Suc i'\<close> ij AB show ?thesis by simp
        qed
      qed
    qed
  qed
  with Cons show ?case by simp
qed

lemma extends_trans:
  assumes "extends today ex b c" and "extends today ex a b"
  shows "extends today ex a c"
  using assms by (induction rule: extends.induct) (auto intro: extends.intros)

lemma extends_accept:
  "is_today_update today (py_get c ''update_date'') \<Longrightarrow>
   extends today ex new (accept ex c new)"
  by (auto simp: accept_def intro: extends.intros)


lemma extends_unique:
  "extends today ex new0 new1 \<Longrightarrow>
   unique_store (ex @ new0) \<Longrightarrow> unique_store (ex @ new1)"
proof (induction rule: extends.induct)
  case same then show ?case by simp
next
  case (more new1 c)
  then show ?case using unique_store_snoc [of "ex @ new1" c] by simp
qed

lemma extends_not_dup:
  "extends today ex new0 new1 \<Longrightarrow>
   \<forall>r \<in> set new0. \<not> is_duplicate r ex \<Longrightarrow>
   \<forall>r \<in> set new1. \<not> is_duplicate r ex"
  by (induction rule: extends.induct) (auto simp: is_duplicate_append)

lemma extends_prefix: "extends today ex new0 new1 \<Longrightarrow> prefix new0 new1"
  by (induction rule: extends.induct) (auto simp: prefix_def)


lemma fold_extends:
  "(\<And>x n. x \<in> set xs \<Longrightarrow> extends today ex n (f x n)) \<Longrightarrow>
   extends today ex new (fold f xs new)"
proof (induction xs arbitrary: new)
  case Nil
  then show ?case by (simp add: extends.same)
next
  case (Cons x xs)
  have "extends today ex new (f x new)" using Cons.prems by simp
  moreover have "extends today ex (f x new) (fold f xs (f x new))"
    using Cons.IH Cons.prems by simp
  ultimately show ?case using extends_trans by fastforce
qed

lemma py_get_literal:
  "py_get [''company'' \<mapsto> a, ''model_name'' \<mapsto> b, ''update_date'' \<mapsto> c,
           ''features'' \<mapsto> d, ''source'' \<mapsto> e, ''link'' \<mapsto> f] ''company'' = a"
  "py_get [''company'' \<mapsto> a, ''model_name'' \<mapsto> b, ''update_date'' \<mapsto> c,
           ''features'' \<mapsto> d, ''source'' \<mapsto> e, ''link'' \<mapsto> f] ''model_name'' = b"
  "py_get [''company'' \<mapsto> a, ''model_name'' \<mapsto> b, ''update_date'' \<mapsto> c,
           ''features'' \<mapsto> d, ''source'' \<mapsto> e, ''link'' \<mapsto> f] ''update_date'' = c"
  "py_get [''company'' \<mapsto> a, ''model_name'' \<mapsto> b, ''update_date'' \<mapsto> c,
           ''features'' \<mapsto> d, ''source'' \<mapsto> e, ''link'' \<mapsto> f] ''link'' = f"
  by (simp_all add: py_get_def)

lemma rss_entries_today:
  "\<forall>r \<in> set updates. is_today_update today (py_get r ''update_date'') \<Longrightarrow>
   \<forall>r \<in> set (rss_entries today company kws entries updates).
      is_today_update today (py_get r ''update_date'')"
proof (induction entries arbitrary: updates)
  case Nil
  then show ?case by simp
next
  case (Cons entry entries)
  show ?case
  proof (cases "title entry")
    case None
    with Cons.prems show ?thesis by simp
  next
    case (Some t)
    define update_date where
      "update_date = (case published_parsed entry of
                        Some d \<Rightarrow> strftime_ymd d | None \<Rightarrow> strftime_ymd today)"
    define smry where "smry = (case summary entry of None \<Rightarrow> [] | Some s \<Rightarrow> s)"
    show ?thesis
    proof (cases "keyword_hit kws (lower t) (lower smry) \<and> release_hit (lower t)
                  \<and> is_today_update today (PStr update_date)")
      case False
      then have "rss_entries today company kws (entry # entries) updates
                 = rss_entries today company kws entries updates"
        using Some by (auto simp: Let_def update_date_def smry_def simp del: is_today_update.simps)
      with Cons.IH [OF Cons.prems] show ?thesis by simp
    next
      case True
      show ?thesis
      proof (cases "link entry")
        case None
        with True Some have "rss_entries today company kws (entry # entries) updates = updates"
          by (simp add: Let_def update_date_def smry_def del: is_today_update.simps)
        with Cons.prems show ?thesis by simp
      next
        case (Some l)
        let ?rec = "[''company'' \<mapsto> PStr company, ''model_name'' \<mapsto> PStr t,
                     ''update_date'' \<mapsto> PStr update_date,
                     ''features'' \<mapsto> PStr (take 300 smry),
                     ''source'' \<mapsto> PStr ''Official RSS'', ''link'' \<mapsto> PStr l]"
        have eq: "rss_entries today company kws (entry # entries) updates
                  = rss_entries today company kws entries (updates @ [?rec])"
          using True Some \<open>title entry = Some t\<close>
          by (simp add: Let_def update_date_def smry_def del: is_today_update.simps)
        have "\<forall>r \<in> set (updates @ [?rec]). is_today_update today (py_get r ''update_date'')"
          using Cons.prems True by (simp add: py_get_literal del: is_today_update.simps)
        from Cons.IH [OF this] eq show ?thesis by simp
      qed
    qed
  qed
qed

lemma rss_feed_today:
  "\<forall>r \<in> set updates. is_today_update (now_date w) (py_get r ''update_date'') \<Longrightarrow>
   \<forall>r \<in> set (rss_feed w company info url updates).
      is_today_update (now_date w) (py_get r ''update_date'')"
  unfolding rss_feed_def using rss_entries_today by (auto split: option.splits)

lemma fold_preserves:
  "(\<And>x s. x \<in> set xs \<Longrightarrow> Q s \<Longrightarrow> Q (f x s)) \<Longrightarrow> Q s \<Longrightarrow> Q (fold f xs s)"
  by (induction xs arbitrary: s) auto

lemma fetch_official_rss_updates_today:
  "\<forall>r \<in> set (fetch_official_rss_updates w patterns).
      is_today_update (now_date w) (py_get r ''update_date'')"
  unfolding fetch_official_rss_updates_def
proof (rule fold_preserves)
  show "\<forall>r \<in> set []. is_today_update (now_date w) (py_get r ''update_date'')" by simp
next
  fix x :: "string \<times> profile" and s :: "pydict list"
  assume s: "\<forall>r \<in> set s. is_today_update (now_date w) (py_get r ''update_date'')"
  obtain company info where x: "x = (company, info)" by (cases x)
  have "\<forall>r \<in> set (fold (rss_feed w company info) (official_sites info) s).
          is_today_update (now_date w) (py_get r ''update_date'')"
    by (rule fold_preserves [where Q = "\<lambda>s. \<forall>r \<in> set s. is_today_update (now_date w) (py_get r ''update_date'')"])
       (use s rss_feed_today in blast)+
  then show "\<forall>r \<in> set ((case x of (company, info) \<Rightarrow> fold (rss_feed w company info) (official_sites info)) s).
          is_today_update (now_date w) (py_get r ''update_date'')"
    by (simp add: x)
qed

lemma rss_stage_extends:
  "extends (now_date w) ex new (rss_stage w patterns ex new)"
  unfolding rss_stage_def
  by (rule fold_extends) (use fetch_official_rss_updates_today extends_accept in blast)

lemma github_release_extends:
  "extends (now_date w) ex new (github_release w company ex release new)"
  unfolding github_release_def
  by (auto split: option.splits intro: extends.same extends_accept)

lemma github_stage_extends:
  "extends (now_date w) ex new (github_stage w patterns ex new)"
  unfolding github_stage_def
proof (rule fold_extends)
  fix x :: "string \<times> profile" and n :: "pydict list"
  obtain company info where x: "x = (company, info)" by (cases x)
  have "extends (now_date w) ex n
          (fold (\<lambda>api_endpoint. fold (github_release w company ex) (fetch_github_releases w api_endpoint))
                (api_endpoints info) n)"
    by (intro fold_extends github_release_extends)
  then show "extends (now_date w) ex n
     ((case x of (company, info) \<Rightarrow> \<lambda>new_updates.
         fold (\<lambda>api_endpoint new_updates.
                 fold (github_release w company ex) (fetch_github_releases w api_endpoint) new_updates)
              (api_endpoints info) new_updates) n)"
    by (simp add: x)
qed

lemma hf_models_extends:
  "extends today ex new (hf_models today company ex models cnt new)"
proof (induction models arbitrary: cnt new)
  case Nil
  then show ?case by (simp add: extends.same)
next
  case (Cons model models)
  show ?case
  proof (cases "cnt \<ge> 2")
    case True
    then show ?thesis by (simp add: extends.same)
  next
    case False
    show ?thesis
    proof (cases "extract_model_info_from_hf today model company")
      case None
      with False Cons.IH show ?thesis by simp
    next
      case (Some info)
      show ?thesis
      proof (cases "is_today_update today (py_get info ''update_date'')
                    \<and> \<not> is_duplicate info (ex @ new)")
        case True
        then have "extends today ex new (new @ [info])"
          by (auto intro: extends.intros)
        moreover have "extends today ex (new @ [info])
                         (hf_models today company ex models (cnt + 1) (new @ [info]))"
          by (rule Cons.IH)
        ultimately show ?thesis using False Some True extends_trans by fastforce
      next
        case no: False
        with False Some Cons.IH show ?thesis by auto
      qed
    qed
  qed
qed

lemma hf_stage_extends:
  "extends (now_date w) ex new (hf_stage w patterns ex new)"
  unfolding hf_stage_def
  by (rule fold_extends) (auto simp: hf_company_def hf_models_extends)

lemma collect_updates_extends:
  "extends (now_date w) ex [] (collect_updates w patterns ex)"
  unfolding collect_updates_def
  by (rule extends_trans [OF hf_stage_extends extends_trans [OF github_stage_extends rss_stage_extends]])

lemma date_keys_length: "date_keys xs = Inr ks \<Longrightarrow> length ks = length xs"
  by (induction xs arbitrary: ks) (auto split: sum.splits)

lemma save_data_length: "save_data xs = Inr ys \<Longrightarrow> length ys = length xs"
  by (auto simp: save_data_def split: sum.splits dest: date_keys_length)

lemma run_new_updates:
  assumes "load_existing_data w = Inr existing" and "run patterns w = Inr res"
  shows "new_updates res = collect_updates w patterns existing"
  using assms by (auto simp: run_def Let_def split: sum.splits if_splits)

lemma run_written:
  assumes "load_existing_data w = Inr existing" and "run patterns w = Inr res"
  shows "(new_updates res = [] \<longrightarrow> written res = None) \<and>
         (new_updates res \<noteq> [] \<longrightarrow> (\<exists>S. written res = Some S \<and> save_data (existing @ new_updates res) = Inr S))"
  using assms by (auto simp: run_def Let_def split: sum.splits if_splits)

section \<open>Duplicate detection\<close>

text \<open>
  C1. \<open>is_duplicate candidate pool\<close> is true exactly when some record of the pool has the
  candidate's link, that link being non-empty, or has the candidate's company and model
  name. In particular a candidate whose non-empty link is the link of a stored record is a
  duplicate and the acceptance step leaves the batch as it was; in every run no accepted
  record has a non-empty link of the loaded store, and the store is either left untouched
  (nothing accepted) or written with exactly the loaded records and the accepted ones.
\<close>

theorem is_duplicate_rejects_shared_link:
  "(is_duplicate candidate pool \<longleftrightarrow>
      (\<exists>item \<in> set pool.
          (truthy (py_get candidate ''link'') \<and> py_get item ''link'' = py_get candidate ''link'')
        \<or> (py_get item ''company'' = py_get candidate ''company''
            \<and> py_get item ''model_name'' = py_get candidate ''model_name'')))
   \<and> (item \<in> set existing \<and> truthy (py_get candidate ''link'')
         \<and> py_get item ''link'' = py_get candidate ''link''
       \<longrightarrow> is_duplicate candidate (existing @ new) \<and> accept existing candidate new = new)
   \<and> (load_existing_data w = Inr existing \<and> run patterns w = Inr res
       \<longrightarrow> (\<forall>c \<in> set (new_updates res). \<forall>item \<in> set existing.
              \<not> (truthy (py_get c ''link'') \<and> py_get item ''link'' = py_get c ''link''))
          \<and> (case written res of
                None \<Rightarrow> new_updates res = []
              | Some S \<Rightarrow> length S = length existing + length (new_updates res)))"
proof (intro conjI impI)
  show "is_duplicate candidate pool \<longleftrightarrow>
      (\<exists>item \<in> set pool.
          (truthy (py_get candidate ''link'') \<and> py_get item ''link'' = py_get candidate ''link'')
        \<or> (py_get item ''company'' = py_get candidate ''company''
            \<and> py_get item ''model_name'' = py_get candidate ''model_name''))"
    by (simp add: is_duplicate_conflict conflict_def)
next
  assume h: "item \<in> set existing \<and> truthy (py_get candidate ''link'')
         \<and> py_get item ''link'' = py_get candidate ''link''"
  then have "conflict candidate item" by (simp add: conflict_def)
  with h show d: "is_duplicate candidate (existing @ new)"
    by (auto simp: is_duplicate_conflict)
  then show "accept existing candidate new = new" by (simp add: accept_def)
next
  assume h: "load_existing_data w = Inr existing \<and> run patterns w = Inr res"
  then have nu: "new_updates res = collect_updates w patterns existing"
    using run_new_updates by blast
  have "\<forall>r \<in> set (collect_updates w patterns existing). \<not> is_duplicate r existing"
    using extends_not_dup [OF collect_updates_extends] by simp
  with nu show "\<forall>c \<in> set (new_updates res). \<forall>item \<in> set existing.
              \<not> (truthy (py_get c ''link'') \<and> py_get item ''link'' = py_get c ''link'')"
    by (auto simp: is_duplicate_conflict conflict_def)
  show "case written res of
                None \<Rightarrow> new_updates res = []
              | Some S \<Rightarrow> length S = length existing + length (new_updates res)"
    using run_written [of w existing patterns res] h
    by (cases "new_updates res = []") (auto dest: save_data_length)
qed

text \<open>Scenario B itself: the only candidate is rejected and the store is not written.\<close>

lemma scenario_b_load: "load_existing_data scenario_b_world = Inr [scenario_b_stored]"
  by (simp add: load_existing_data_def scenario_b_world_def byte_in_def)

lemma scenario_b_hits:
  "keyword_hit [''claude'', ''sonnet'', ''opus'', ''haiku''] (lower ''Introducing the new Claude'') (lower ''Claude is here'')"
  "release_hit (lower ''Introducing the new Claude'')"
  "is_today_update (2024, 5, 17) (PStr (strftime_ymd (2024, 5, 17)))"
  "strftime_ymd (2024, 5, 17) = ''2024-05-17''"
  by code_simp+

lemma scenario_b_rss:
  "fetch_official_rss_updates scenario_b_world MODEL_PATTERNS =
     [[''company'' \<mapsto> PStr ''Anthropic'', ''model_name'' \<mapsto> PStr ''Introducing the new Claude'',
       ''update_date'' \<mapsto> PStr ''2024-05-17'', ''features'' \<mapsto> PStr ''Claude is here'',
       ''source'' \<mapsto> PStr ''Official RSS'', ''link'' \<mapsto> PStr ''https://x/y'']]"
  using scenario_b_hits
  by (simp add: fetch_official_rss_updates_def MODEL_PATTERNS_def rss_feed_def scenario_b_world_def
        scenario_b_entry_def Let_def del: is_today_update.simps strftime_ymd.simps)

lemma scenario_b_collect:
  "collect_updates scenario_b_world MODEL_PATTERNS [scenario_b_stored] = []"
proof -
  have "rss_stage scenario_b_world MODEL_PATTERNS [scenario_b_stored] [] = []"
    by (simp add: rss_stage_def scenario_b_rss accept_def scenario_b_stored_def py_get_def)
  moreover have "github_stage scenario_b_world MODEL_PATTERNS [scenario_b_stored] [] = []"
    by (simp add: github_stage_def fetch_github_releases_def MODEL_PATTERNS_def scenario_b_world_def)
  moreover have "hf_stage scenario_b_world MODEL_PATTERNS [scenario_b_stored] [] = []"
    by (simp add: hf_stage_def hf_company_def fetch_huggingface_models_def MODEL_PATTERNS_def
          scenario_b_world_def)
  ultimately show ?thesis by (simp add: collect_updates_def)
qed

lemma scenario_b_run:
  "fetch_all_updates scenario_b_world = Inr \<lparr>new_updates = [], written = None\<rparr>"
  by (simp add: fetch_all_updates_def run_def scenario_b_load scenario_b_collect)

lemma two_entry_hits:
  "keyword_hit [''claude''] (lower ''Introducing the new Claude'') (lower ''Claude is here'')"
  "release_hit (lower ''Introducing the new Claude'')"
  "keyword_hit [''claude''] (lower ''Claude 3.5 now available'') (lower [])"
  "release_hit (lower ''Claude 3.5 now available'')"
  "keyword_hit [''claude''] (lower ''Claude 2 released'') (lower [])"
  "release_hit (lower ''Claude 2 released'')"
  "is_today_update (2024, 5, 17) (PStr (strftime_ymd (2024, 5, 16))) = False"
  by code_simp+

lemma two_entry_rss:
  "fetch_official_rss_updates two_entry_world one_company = [scenario_b_candidate, fresh_record]"
  using two_entry_hits scenario_b_hits(3,4)
  by (simp add: fetch_official_rss_updates_def one_company_def rss_feed_def two_entry_world_def
        scenario_b_world_def scenario_b_entry_def fresh_entry_def stale_entry_def
        scenario_b_candidate_def fresh_record_def Let_def
        del: is_today_update.simps strftime_ymd.simps)

lemma two_entry_collect:
  "collect_updates two_entry_world one_company [scenario_b_stored] = [fresh_record]"
proof -
  have "rss_stage two_entry_world one_company [scenario_b_stored] [] = [fresh_record]"
    by (simp add: rss_stage_def two_entry_rss accept_def)
       (simp add: scenario_b_stored_def scenario_b_candidate_def fresh_record_def py_get_def)
  moreover have "github_stage two_entry_world one_company [scenario_b_stored] xs = xs" for xs
    by (simp add: github_stage_def one_company_def)
  moreover have "hf_stage two_entry_world one_company [scenario_b_stored] xs = xs" for xs
    by (simp add: hf_stage_def hf_company_def fetch_huggingface_models_def one_company_def
          two_entry_world_def scenario_b_world_def)
  ultimately show ?thesis by (simp add: collect_updates_def)
qed

lemma two_entry_dates:
  "strptime_ymd ''2024-03-04'' = Some (2024, 3, 4)"
  "strptime_ymd ''2024-05-17'' = Some (2024, 5, 17)"
  by code_simp+

lemma two_entry_save:
  "save_data ([scenario_b_stored] @ [fresh_record]) = Inr [fresh_record, scenario_b_stored]"
  by (simp add: save_data_def date_key_def scenario_b_stored_def fresh_record_def two_entry_dates
        less_eq_prod_def)

lemma two_entry_load: "load_existing_data two_entry_world = Inr [scenario_b_stored]"
  by (simp add: load_existing_data_def two_entry_world_def scenario_b_world_def byte_in_def)

lemma two_entry_run:
  "run one_company two_entry_world =
     Inr \<lparr>new_updates = [fresh_record], written = Some [fresh_record, scenario_b_stored]\<rparr>"
  using two_entry_save
  by (simp add: run_def two_entry_load two_entry_collect)

theorem is_duplicate_rejects_shared_link_witness:
  "scenario_b_stored \<in> set [scenario_b_stored]
   \<and> truthy (py_get scenario_b_candidate ''link'')
   \<and> py_get scenario_b_stored ''link'' = py_get scenario_b_candidate ''link''
   \<and> is_duplicate scenario_b_candidate ([scenario_b_stored] @ [])
   \<and> accept [scenario_b_stored] scenario_b_candidate [] = []
   \<and> load_existing_data two_entry_world = Inr [scenario_b_stored]
   \<and> run one_company two_entry_world =
        Inr \<lparr>new_updates = [fresh_record], written = Some [fresh_record, scenario_b_stored]\<rparr>
   \<and> \<not> (truthy (py_get fresh_record ''link'')
          \<and> py_get scenario_b_stored ''link'' = py_get fresh_record ''link'')
   \<and> length [fresh_record, scenario_b_stored] = length [scenario_b_stored] + length [fresh_record]"
proof -
  have h1: "scenario_b_stored \<in> set [scenario_b_stored]
            \<and> truthy (py_get scenario_b_candidate ''link'')
            \<and> py_get scenario_b_stored ''link'' = py_get scenario_b_candidate ''link''"
    by (simp add: scenario_b_stored_def scenario_b_candidate_def py_get_def)
  have h2: "load_existing_data two_entry_world = Inr [scenario_b_stored]
            \<and> run one_company two_entry_world =
               Inr \<lparr>new_updates = [fresh_record], written = Some [fresh_record, scenario_b_stored]\<rparr>"
    by (simp add: two_entry_load two_entry_run)
  from is_duplicate_rejects_shared_link
         [of scenario_b_candidate "[scenario_b_stored]" scenario_b_stored "[scenario_b_stored]" "[]"
             two_entry_world one_company
             "\<lparr>new_updates = [fresh_record], written = Some [fresh_record, scenario_b_stored]\<rparr>"]
       h1 h2
  show ?thesis by simp
qed


section \<open>The date filter\<close>




section \<open>Dates: parsing and order\<close>

lemma is_digit_of_char:
  "is_digit c \<longleftrightarrow> 48 \<le> (of_char c :: nat) \<and> (of_char c :: nat) \<le> 57"
  by (simp add: is_digit_def less_eq_char_def)

lemma digit_val_bound: "is_digit c \<Longrightarrow> digit_val c < 10"
  by (auto simp: is_digit_of_char digit_val_def)

lemma char_eq_of_char: "c = c' \<longleftrightarrow> (of_char c :: nat) = of_char c'"
  by simp

lemma digit_val_eq: "is_digit a \<Longrightarrow> is_digit b \<Longrightarrow> digit_val a = digit_val b \<longleftrightarrow> a = b"
  unfolding is_digit_of_char digit_val_def char_eq_of_char [of a b] by arith

lemma digit_val_less: "is_digit a \<Longrightarrow> is_digit b \<Longrightarrow> a < b \<longleftrightarrow> digit_val a < digit_val b"
  unfolding is_digit_of_char digit_val_def less_char_def by arith

lemma in_range_digit:
  "is_digit c \<Longrightarrow> in_range (CHR ''0'') (CHR ''2'') c = (digit_val c \<le> 2)"
  "is_digit c \<Longrightarrow> in_range (CHR ''1'') (CHR ''9'') c = (1 \<le> digit_val c)"
  "is_digit c \<Longrightarrow> in_range (CHR ''0'') (CHR ''1'') c = (digit_val c \<le> 1)"
  "is_digit c \<Longrightarrow> in_range (CHR ''1'') (CHR ''2'') c = (1 \<le> digit_val c \<and> digit_val c \<le> 2)"
  unfolding is_digit_of_char in_range_def digit_val_def less_eq_char_def by simp_all arith+

lemma digit_is:
  "is_digit c \<Longrightarrow> (c = CHR ''0'') = (digit_val c = 0)"
  "is_digit c \<Longrightarrow> (c = CHR ''1'') = (digit_val c = 1)"
  "is_digit c \<Longrightarrow> (c = CHR ''3'') = (digit_val c = 3)"
  unfolding is_digit_of_char digit_val_def
    char_eq_of_char [of c "CHR ''0''"] char_eq_of_char [of c "CHR ''1''"]
    char_eq_of_char [of c "CHR ''3''"]
  by simp_all arith+

lemma digit_not_special: "is_digit c \<Longrightarrow> c \<noteq> CHR ''-''" "is_digit c \<Longrightarrow> c \<noteq> CHR '' ''"
  unfolding is_digit_of_char by auto

lemma month_then_hyphen:
  assumes "is_digit a" "is_digit b"
    and "1 \<le> 10 * digit_val a + digit_val b" "10 * digit_val a + digit_val b \<le> 12"
  shows "concat (map (\<lambda>(m, r3). concat (map (G m) (hyphen r3)))
                     (month_alts (a # b # CHR ''-'' # r)))
         = G (10 * digit_val a + digit_val b) r"
proof -
  have "digit_val a = 0 \<or> digit_val a = 1" using assms(3,4) by arith
  then show ?thesis
  proof
    assume a: "digit_val a = 0"
    with assms(3) have "1 \<le> digit_val b" by simp
    with a assms(1,2) show ?thesis
      by (simp add: month_alts_def in_range_digit digit_is digit_not_special)
  next
    assume a: "digit_val a = 1"
    with assms(4) have "digit_val b \<le> 2" by simp
    with a assms(1,2) show ?thesis
      by (simp add: month_alts_def in_range_digit digit_is digit_not_special)
  qed
qed

lemma day_first:
  assumes "is_digit a" "is_digit b"
    and "1 \<le> 10 * digit_val a + digit_val b" "10 * digit_val a + digit_val b \<le> 31"
  shows "\<exists>rest. day_alts [a, b] = (10 * digit_val a + digit_val b, []) # rest"
proof -
  consider "digit_val a = 0" | "digit_val a = 1" | "digit_val a = 2" | "digit_val a = 3"
    using assms(4) by arith
  then show ?thesis
  proof cases
    case 1
    with assms(3) have "1 \<le> digit_val b" by simp
    with 1 assms(1,2) show ?thesis
      by (simp add: day_alts_def in_range_digit digit_is digit_not_special)
  next
    case 2
    with assms(1,2) show ?thesis
      by (simp add: day_alts_def in_range_digit digit_is digit_not_special)
  next
    case 3
    with assms(1,2) show ?thesis
      by (simp add: day_alts_def in_range_digit digit_is digit_not_special)
  next
    case 4
    with assms(4) have "digit_val b \<le> 1" by simp
    with 4 assms(1,2) show ?thesis
      by (simp add: day_alts_def in_range_digit digit_is digit_not_special)
  qed
qed

lemma days_in_month_le: "days_in_month y m \<le> 31"
  by (simp add: days_in_month_def)

lemma strptime_ten_chars:
  assumes dg: "is_digit y1" "is_digit y2" "is_digit y3" "is_digit y4"
              "is_digit m1" "is_digit m2" "is_digit d1" "is_digit d2"
    and v: "valid_date (1000 * digit_val y1 + 100 * digit_val y2 + 10 * digit_val y3 + digit_val y4,
                        10 * digit_val m1 + digit_val m2, 10 * digit_val d1 + digit_val d2)"
  shows "strptime_ymd [y1, y2, y3, y4, CHR ''-'', m1, m2, CHR ''-'', d1, d2]
         = Some (1000 * digit_val y1 + 100 * digit_val y2 + 10 * digit_val y3 + digit_val y4,
                 10 * digit_val m1 + digit_val m2, 10 * digit_val d1 + digit_val d2)"
proof -
  define Y where "Y = 1000 * digit_val y1 + 100 * digit_val y2 + 10 * digit_val y3 + digit_val y4"
  define M where "M = 10 * digit_val m1 + digit_val m2"
  define D where "D = 10 * digit_val d1 + digit_val d2"
  from v have vd: "valid_date (Y, M, D)" by (simp only: Y_def M_def D_def)
  then have m: "1 \<le> M" "M \<le> 12" and d: "1 \<le> D" "D \<le> 31"
    using days_in_month_le [of Y M] by auto
  obtain rest where rest: "day_alts [d1, d2] = (D, []) # rest"
    using day_first [OF dg(7,8)] d unfolding D_def by blast
  have ya: "year_alts (y1 # y2 # y3 # y4 # r) = [(Y, r)]" for r
    using dg(1-4) by (simp add: Y_def)
  have mh: "concat (map (\<lambda>(m, r3). concat (map (G m) (hyphen r3)))
                     (month_alts (m1 # m2 # CHR ''-'' # r))) = G M r" for G :: "nat \<Rightarrow> string \<Rightarrow> 'b list" and r
    using month_then_hyphen [OF dg(5,6)] m unfolding M_def by blast
  have "ymd_matches [y1, y2, y3, y4, CHR ''-'', m1, m2, CHR ''-'', d1, d2]
        = map (\<lambda>(d, r5). ((Y, M, d), r5)) (day_alts [d1, d2])"
    unfolding ymd_matches_def ya by (simp add: mh)
  with rest vd show ?thesis
    unfolding Y_def [symmetric] M_def [symmetric] D_def [symmetric]
    by (simp add: strptime_ymd_def del: valid_date.simps)
qed

lemma two_digit_eq:
  fixes a b a' b' :: nat
  assumes "b < 10" "b' < 10"
  shows "10 * a + b = 10 * a' + b' \<longleftrightarrow> a = a' \<and> b = b'"
proof
  assume e: "10 * a + b = 10 * a' + b'"
  then have "(10 * a + b) div 10 = (10 * a' + b') div 10" by simp
  with assms have "a = a'" by simp
  with e show "a = a' \<and> b = b'" by simp
qed simp

lemma two_digit_less:
  fixes a b a' b' :: nat
  assumes "b < 10" "b' < 10"
  shows "10 * a + b < 10 * a' + b' \<longleftrightarrow> a < a' \<or> a = a' \<and> b < b'"
proof (cases a a' rule: linorder_cases)
  case less
  then have "10 * a + 10 \<le> 10 * a'" by simp
  with assms less show ?thesis by linarith
next
  case equal
  then show ?thesis by simp
next
  case greater
  then have "10 * a' + 10 \<le> 10 * a" by simp
  with assms greater show ?thesis by linarith
qed

lemma four_digit_split:
  fixes a b c d :: nat
  shows "1000 * a + 100 * b + 10 * c + d = 10 * (10 * (10 * a + b) + c) + d"
  by simp

lemma four_digit_less:
  fixes a b c d a' b' c' d' :: nat
  assumes "b < 10" "b' < 10" "c < 10" "c' < 10" "d < 10" "d' < 10"
  shows "1000 * a + 100 * b + 10 * c + d < 1000 * a' + 100 * b' + 10 * c' + d'
         \<longleftrightarrow> a < a' \<or> a = a' \<and> (b < b' \<or> b = b' \<and> (c < c' \<or> c = c' \<and> d < d'))"
  unfolding four_digit_split
  by (simp only: two_digit_less [OF assms(5,6)] two_digit_less [OF assms(3,4)]
        two_digit_less [OF assms(1,2)] two_digit_eq [OF assms(3,4)] two_digit_eq [OF assms(1,2)])
     blast

lemma four_digit_eq:
  fixes a b c d a' b' c' d' :: nat
  assumes "b < 10" "b' < 10" "c < 10" "c' < 10" "d < 10" "d' < 10"
  shows "1000 * a + 100 * b + 10 * c + d = 1000 * a' + 100 * b' + 10 * c' + d'
         \<longleftrightarrow> a = a' \<and> b = b' \<and> c = c' \<and> d = d'"
  unfolding four_digit_split
  by (simp only: two_digit_eq [OF assms(5,6)] two_digit_eq [OF assms(3,4)]
        two_digit_eq [OF assms(1,2)]) blast

lemma well_formed_ymd_shape:
  assumes "well_formed_ymd s"
  obtains y1 y2 y3 y4 m1 m2 d1 d2 where
    "s = [y1, y2, y3, y4, CHR ''-'', m1, m2, CHR ''-'', d1, d2]"
    "is_digit y1" "is_digit y2" "is_digit y3" "is_digit y4"
    "is_digit m1" "is_digit m2" "is_digit d1" "is_digit d2"
    "valid_date (1000 * digit_val y1 + 100 * digit_val y2 + 10 * digit_val y3 + digit_val y4,
                 10 * digit_val m1 + digit_val m2, 10 * digit_val d1 + digit_val d2)"
  using assms by (rule well_formed_ymd.elims) (simp_all del: valid_date.simps)

lemma well_formed_ymd_strptime:
  assumes "well_formed_ymd s"
  shows "\<exists>d. strptime_ymd s = Some d"
proof -
  from assms obtain y1 y2 y3 y4 m1 m2 d1 d2 where
    s: "s = [y1, y2, y3, y4, CHR ''-'', m1, m2, CHR ''-'', d1, d2]"
    and dg: "is_digit y1" "is_digit y2" "is_digit y3" "is_digit y4"
            "is_digit m1" "is_digit m2" "is_digit d1" "is_digit d2"
    and v: "valid_date (1000 * digit_val y1 + 100 * digit_val y2 + 10 * digit_val y3 + digit_val y4,
                        10 * digit_val m1 + digit_val m2, 10 * digit_val d1 + digit_val d2)"
    by (rule well_formed_ymd_shape)
  show ?thesis unfolding s using strptime_ten_chars [OF dg v] by blast
qed

lemma well_formed_ymd_order:
  assumes "well_formed_ymd s" "well_formed_ymd s'"
    and "strptime_ymd s = Some dt" "strptime_ymd s' = Some dt'"
  shows "dt \<le> dt' \<longleftrightarrow> s \<le> s'"
proof -
  from assms(1) obtain y1 y2 y3 y4 m1 m2 d1 d2 where
    s: "s = [y1, y2, y3, y4, CHR ''-'', m1, m2, CHR ''-'', d1, d2]"
    and dg: "is_digit y1" "is_digit y2" "is_digit y3" "is_digit y4"
            "is_digit m1" "is_digit m2" "is_digit d1" "is_digit d2"
    and v: "valid_date (1000 * digit_val y1 + 100 * digit_val y2 + 10 * digit_val y3 + digit_val y4,
                        10 * digit_val m1 + digit_val m2, 10 * digit_val d1 + digit_val d2)"
    by (rule well_formed_ymd_shape)
  from assms(2) obtain z1 z2 z3 z4 n1 n2 e1 e2 where
    s': "s' = [z1, z2, z3, z4, CHR ''-'', n1, n2, CHR ''-'', e1, e2]"
    and dg': "is_digit z1" "is_digit z2" "is_digit z3" "is_digit z4"
            "is_digit n1" "is_digit n2" "is_digit e1" "is_digit e2"
    and v': "valid_date (1000 * digit_val z1 + 100 * digit_val z2 + 10 * digit_val z3 + digit_val z4,
                        10 * digit_val n1 + digit_val n2, 10 * digit_val e1 + digit_val e2)"
    by (rule well_formed_ymd_shape)
  define Y where "Y = 1000 * digit_val y1 + 100 * digit_val y2 + 10 * digit_val y3 + digit_val y4"
  define M where "M = 10 * digit_val m1 + digit_val m2"
  define D where "D = 10 * digit_val d1 + digit_val d2"
  define Y' where "Y' = 1000 * digit_val z1 + 100 * digit_val z2 + 10 * digit_val z3 + digit_val z4"
  define M' where "M' = 10 * digit_val n1 + digit_val n2"
  define D' where "D' = 10 * digit_val e1 + digit_val e2"
  have dt: "dt = (Y, M, D)"
    using assms(3) strptime_ten_chars [OF dg v] unfolding s Y_def M_def D_def by simp
  have dt': "dt' = (Y', M', D')"
    using assms(4) strptime_ten_chars [OF dg' v'] unfolding s' Y'_def M'_def D'_def by simp
  note b = dg [THEN digit_val_bound]
  note b' = dg' [THEN digit_val_bound]
  have Yl: "Y < Y' \<longleftrightarrow> [y1, y2, y3, y4] < [z1, z2, z3, z4]"
    unfolding Y_def Y'_def four_digit_less [OF b(2) b'(2) b(3) b'(3) b(4) b'(4)]
    by (simp add: digit_val_less [OF dg(1) dg'(1)] digit_val_less [OF dg(2) dg'(2)]
          digit_val_less [OF dg(3) dg'(3)] digit_val_less [OF dg(4) dg'(4)]
          digit_val_eq [OF dg(1) dg'(1), symmetric] digit_val_eq [OF dg(2) dg'(2), symmetric]
          digit_val_eq [OF dg(3) dg'(3), symmetric])
  have Ye: "Y = Y' \<longleftrightarrow> [y1, y2, y3, y4] = [z1, z2, z3, z4]"
    unfolding Y_def Y'_def four_digit_eq [OF b(2) b'(2) b(3) b'(3) b(4) b'(4)]
    by (simp add: digit_val_eq [OF dg(1) dg'(1)] digit_val_eq [OF dg(2) dg'(2)]
          digit_val_eq [OF dg(3) dg'(3)] digit_val_eq [OF dg(4) dg'(4)])
  have Ml: "M < M' \<longleftrightarrow> [m1, m2] < [n1, n2]"
    unfolding M_def M'_def two_digit_less [OF b(6) b'(6)]
    by (simp add: digit_val_less [OF dg(5) dg'(5)] digit_val_less [OF dg(6) dg'(6)]
          digit_val_eq [OF dg(5) dg'(5), symmetric])
  have Me: "M = M' \<longleftrightarrow> [m1, m2] = [n1, n2]"
    unfolding M_def M'_def two_digit_eq [OF b(6) b'(6)]
    by (simp add: digit_val_eq [OF dg(5) dg'(5)] digit_val_eq [OF dg(6) dg'(6)])
  have Dl: "D < D' \<longleftrightarrow> [d1, d2] < [e1, e2]"
    unfolding D_def D'_def two_digit_less [OF b(8) b'(8)]
    by (simp add: digit_val_less [OF dg(7) dg'(7)] digit_val_less [OF dg(8) dg'(8)]
          digit_val_eq [OF dg(7) dg'(7), symmetric])
  have De: "D = D' \<longleftrightarrow> [d1, d2] = [e1, e2]"
    unfolding D_def D'_def two_digit_eq [OF b(8) b'(8)]
    by (simp add: digit_val_eq [OF dg(7) dg'(7)] digit_val_eq [OF dg(8) dg'(8)])
  have L: "(Y, M, D) \<le> (Y', M', D') \<longleftrightarrow>
           Y < Y' \<or> Y = Y' \<and> (M < M' \<or> M = M' \<and> (D < D' \<or> D = D'))"
    by (auto simp: less_eq_prod_def less_prod_def)
  have R: "s \<le> s' \<longleftrightarrow>
           [y1, y2, y3, y4] < [z1, z2, z3, z4] \<or> [y1, y2, y3, y4] = [z1, z2, z3, z4] \<and>
             ([m1, m2] < [n1, n2] \<or> [m1, m2] = [n1, n2] \<and>
                ([d1, d2] < [e1, e2] \<or> [d1, d2] = [e1, e2]))"
    unfolding s s' by (simp add: le_less) blast
  show ?thesis unfolding dt dt' L R Yl Ye Ml Me Dl De ..
qed

section \<open>Saving: keys, order and content\<close>

lemma date_keys_zip:
  "date_keys xs = Inr ks \<Longrightarrow>
   length ks = length xs \<and> (\<forall>p \<in> set (zip ks xs). date_key (snd p) = Inr (fst p))"
proof (induction xs arbitrary: ks)
  case Nil
  then show ?case by simp
next
  case (Cons x xs)
  from Cons.prems obtain k ks' where
    k: "date_key x = Inr k" and ks': "date_keys xs = Inr ks'" and ks: "ks = k # ks'"
    by (auto split: sum.splits)
  from Cons.IH [OF ks'] k ks show ?case by auto
qed

lemma date_keys_total:
  "(\<exists>ks. date_keys xs = Inr ks) \<longleftrightarrow> (\<forall>x \<in> set xs. \<exists>d. date_key x = Inr d)"
  by (induction xs) (auto split: sum.splits)

lemma date_keys_error:
  "date_keys xs = Inl e \<Longrightarrow> \<exists>x \<in> set xs. date_key x = Inl e"
  by (induction xs) (auto split: sum.splits)

lemma date_key_Inr:
  "date_key x = Inr d \<longleftrightarrow> (\<exists>s. x ''update_date'' = Some (PStr s) \<and> strptime_ymd s = Some d)"
  by (auto simp: date_key_def split: option.splits pyval.splits)

lemma save_data_pairs:
  assumes "save_data data = Inr S"
  obtains ps where "S = map snd ps" "length ps = length data"
    "set (map snd ps) = set data"
    "\<forall>p \<in> set ps. date_key (snd p) = Inr (fst p)"
    "sorted (rev (map fst ps))"
proof -
  from assms obtain ks where ks: "date_keys data = Inr ks"
    and S: "S = map snd (rev (sort_key fst (rev (zip ks data))))"
    by (auto simp: save_data_def split: sum.splits)
  let ?ps = "rev (sort_key fst (rev (zip ks data)))"
  from date_keys_zip [OF ks] have len: "length ks = length data"
    and keys: "\<forall>p \<in> set (zip ks data). date_key (snd p) = Inr (fst p)" by auto
  have "set ?ps = set (zip ks data)" by simp
  moreover have "snd ` set (zip ks data) = set data"
    using len by (metis map_snd_zip set_map)
  ultimately have "set (map snd ?ps) = set data" by (simp del: set_rev set_sort)
  moreover have "sorted (rev (map fst ?ps))"
    by (simp add: rev_map [symmetric] sorted_sort_key del: set_rev)
  moreover have "length ?ps = length data" using len by simp
  moreover have "\<forall>p \<in> set ?ps. date_key (snd p) = Inr (fst p)" using keys by simp
  ultimately show ?thesis using that [of ?ps] S by blast
qed

lemma save_data_adjacent:
  assumes "save_data data = Inr S" and "Suc i < length S"
  shows "\<exists>d1 d2. date_key (S ! i) = Inr d1 \<and> date_key (S ! Suc i) = Inr d2 \<and> d2 \<le> d1"
proof -
  from assms(1) obtain ps where ps: "S = map snd ps"
    and keys: "\<forall>p \<in> set ps. date_key (snd p) = Inr (fst p)"
    and srt: "sorted (rev (map fst ps))"
    by (rule save_data_pairs)
  from assms(2) ps have i: "Suc i < length ps" by simp
  from srt have "sorted_wrt (\<lambda>x y. y \<le> x) (map fst ps)"
    by (simp add: sorted_wrt_rev)
  then have "map fst ps ! Suc i \<le> map fst ps ! i"
    using i sorted_wrt_nth_less [of "\<lambda>x y. y \<le> x" "map fst ps" i "Suc i"] by simp
  with i have le: "fst (ps ! Suc i) \<le> fst (ps ! i)" by simp
  from i keys have "date_key (snd (ps ! i)) = Inr (fst (ps ! i))"
    and "date_key (snd (ps ! Suc i)) = Inr (fst (ps ! Suc i))"
    by (auto simp: all_set_conv_all_nth)
  with le ps i show ?thesis by simp
qed

lemma save_data_succeeds_iff:
  "(\<exists>S. save_data data = Inr S) \<longleftrightarrow>
   (\<forall>r \<in> set data. \<exists>s d. r ''update_date'' = Some (PStr s) \<and> strptime_ymd s = Some d)"
proof -
  have "(\<exists>S. save_data data = Inr S) \<longleftrightarrow> (\<exists>ks. date_keys data = Inr ks)"
    by (auto simp: save_data_def split: sum.splits)
  also have "\<dots> \<longleftrightarrow> (\<forall>x \<in> set data. \<exists>d. date_key x = Inr d)"
    by (rule date_keys_total)
  also have "\<dots> \<longleftrightarrow>
      (\<forall>r \<in> set data. \<exists>s d. r ''update_date'' = Some (PStr s) \<and> strptime_ymd s = Some d)"
    unfolding date_key_Inr by blast
  finally show ?thesis .
qed

lemma save_data_well_formed:
  assumes "\<forall>r \<in> set data. \<exists>s. r ''update_date'' = Some (PStr s) \<and> well_formed_ymd s"
  shows "\<exists>S. save_data data = Inr S"
  unfolding save_data_succeeds_iff
  using assms well_formed_ymd_strptime by blast

lemma unique_store_insort:
  "unique_store (map snd (insort_key fst p ps)) = unique_store (map snd (p # ps))"
  by (induction ps) (auto simp: set_insort_key dest: conflict_sym)

lemma unique_store_sort:
  "unique_store (map snd (sort_key fst ps)) = unique_store (map snd ps)"
proof (induction ps)
  case Nil
  then show ?case by simp
next
  case (Cons p ps)
  have "unique_store (map snd (sort_key fst (p # ps)))
        = unique_store (map snd (p # sort_key fst ps))"
    by (simp add: unique_store_insort del: unique_store.simps list.map)
  also have "\<dots> = unique_store (map snd (p # ps))"
    using Cons.IH by simp
  finally show ?case .
qed

lemma save_data_unique:
  assumes "save_data data = Inr S"
  shows "unique_store S = unique_store data"
proof -
  from assms obtain ks where ks: "date_keys data = Inr ks"
    and S: "S = map snd (rev (sort_key fst (rev (zip ks data))))"
    by (auto simp: save_data_def split: sum.splits)
  from date_keys_zip [OF ks] have len: "length ks = length data" by simp
  have "unique_store S = unique_store (rev (map snd (sort_key fst (rev (zip ks data)))))"
    unfolding S by (simp only: rev_map)
  also have "\<dots> = unique_store (map snd (sort_key fst (rev (zip ks data))))"
    by (rule unique_store_rev)
  also have "\<dots> = unique_store (map snd (rev (zip ks data)))"
    by (rule unique_store_sort)
  also have "\<dots> = unique_store (rev (map snd (zip ks data)))"
    by (simp only: rev_map)
  also have "\<dots> = unique_store (map snd (zip ks data))"
    by (rule unique_store_rev)
  also have "\<dots> = unique_store data"
    using len by (simp add: map_snd_zip)
  finally show ?thesis .
qed

lemma save_data_set:
  assumes "save_data data = Inr S"
  shows "set S = set data"
  using assms by (rule save_data_pairs) simp

section \<open>Uniqueness across a run\<close>

text \<open>
  C3. A store is unique when no two records at different positions share a non-empty link
  or share company and model name. When the loaded store is unique, the merged list of
  loaded and accepted records is unique, and so is the sorted list the run writes, which
  has the same records.
\<close>

theorem run_preserves_uniqueness:
  "(unique_store xs \<longleftrightarrow>
      (\<forall>i < length xs. \<forall>j < length xs. i \<noteq> j \<longrightarrow>
          \<not> (truthy (py_get (xs ! i) ''link'') \<and> py_get (xs ! j) ''link'' = py_get (xs ! i) ''link'')
        \<and> \<not> (py_get (xs ! j) ''company'' = py_get (xs ! i) ''company''
              \<and> py_get (xs ! j) ''model_name'' = py_get (xs ! i) ''model_name'')))
   \<and> (load_existing_data w = Inr existing \<and> unique_store existing \<and> run patterns w = Inr res
       \<longrightarrow> unique_store (existing @ new_updates res)
          \<and> (\<forall>S. written res = Some S
                 \<longrightarrow> unique_store S \<and> set S = set (existing @ new_updates res)))"
proof (intro conjI impI allI)
  show "unique_store xs \<longleftrightarrow>
      (\<forall>i < length xs. \<forall>j < length xs. i \<noteq> j \<longrightarrow>
          \<not> (truthy (py_get (xs ! i) ''link'') \<and> py_get (xs ! j) ''link'' = py_get (xs ! i) ''link'')
        \<and> \<not> (py_get (xs ! j) ''company'' = py_get (xs ! i) ''company''
              \<and> py_get (xs ! j) ''model_name'' = py_get (xs ! i) ''model_name''))"
    unfolding unique_store_nth conflict_def by blast
next
  assume h: "load_existing_data w = Inr existing \<and> unique_store existing \<and> run patterns w = Inr res"
  then have nu: "new_updates res = collect_updates w patterns existing"
    using run_new_updates by blast
  show u: "unique_store (existing @ new_updates res)"
    unfolding nu using extends_unique [OF collect_updates_extends] h by simp
  fix S assume S: "written res = Some S"
  from h have "(new_updates res = [] \<longrightarrow> written res = None) \<and>
         (new_updates res \<noteq> [] \<longrightarrow>
            (\<exists>S. written res = Some S \<and> save_data (existing @ new_updates res) = Inr S))"
    using run_written by blast
  with S have sv: "save_data (existing @ new_updates res) = Inr S"
    by (cases "new_updates res = []") auto
  from save_data_unique [OF sv] u show "unique_store S" by simp
  from save_data_set [OF sv] show "set S = set (existing @ new_updates res)" .
qed

theorem run_preserves_uniqueness_witness:
  "load_existing_data two_entry_world = Inr [scenario_b_stored]
   \<and> unique_store [scenario_b_stored]
   \<and> run one_company two_entry_world =
        Inr \<lparr>new_updates = [fresh_record], written = Some [fresh_record, scenario_b_stored]\<rparr>
   \<and> unique_store [fresh_record, scenario_b_stored]"
proof -
  have h: "load_existing_data two_entry_world = Inr [scenario_b_stored]
           \<and> unique_store [scenario_b_stored]
           \<and> run one_company two_entry_world =
              Inr \<lparr>new_updates = [fresh_record], written = Some [fresh_record, scenario_b_stored]\<rparr>"
    by (simp add: two_entry_load two_entry_run)
  from run_preserves_uniqueness
         [of "[]" two_entry_world "[scenario_b_stored]" one_company
             "\<lparr>new_updates = [fresh_record], written = Some [fresh_record, scenario_b_stored]\<rparr>"]
       h
  show ?thesis by simp
qed

section \<open>The order of the saved store\<close>

text \<open>
  C4. When every record's \<open>update_date\<close> is a well-formed \<^verbatim>\<open>YYYY-MM-DD\<close> string,
  \<open>save_data\<close> succeeds; the list it writes has the records of its input, and each record
  is dated no earlier than the one after it, in the order of the calendar and equally in
  the order of the strings. The calendar half holds for every list \<open>save_data\<close> writes.
\<close>

theorem save_data_sorted_descending:
  "((\<forall>r \<in> set data. \<exists>s. r ''update_date'' = Some (PStr s) \<and> well_formed_ymd s)
    \<longrightarrow> (\<exists>S. save_data data = Inr S \<and> length S = length data \<and> set S = set data
             \<and> (\<forall>i. Suc i < length S \<longrightarrow>
                   (\<exists>s1 s2 d1 d2.
                       (S ! i) ''update_date'' = Some (PStr s1)
                     \<and> (S ! Suc i) ''update_date'' = Some (PStr s2)
                     \<and> strptime_ymd s1 = Some d1 \<and> strptime_ymd s2 = Some d2
                     \<and> d2 \<le> d1 \<and> s2 \<le> s1))))
   \<and> (save_data data = Inr S' \<and> Suc i < length S'
       \<longrightarrow> (\<exists>s1 s2 d1 d2.
               (S' ! i) ''update_date'' = Some (PStr s1)
             \<and> (S' ! Suc i) ''update_date'' = Some (PStr s2)
             \<and> strptime_ymd s1 = Some d1 \<and> strptime_ymd s2 = Some d2 \<and> d2 \<le> d1))"
proof (intro conjI impI)
  assume "save_data data = Inr S' \<and> Suc i < length S'"
  then show "\<exists>s1 s2 d1 d2.
               (S' ! i) ''update_date'' = Some (PStr s1)
             \<and> (S' ! Suc i) ''update_date'' = Some (PStr s2)
             \<and> strptime_ymd s1 = Some d1 \<and> strptime_ymd s2 = Some d2 \<and> d2 \<le> d1"
    using save_data_adjacent [of data S' i] unfolding date_key_Inr by blast
next
  assume wf: "\<forall>r \<in> set data. \<exists>s. r ''update_date'' = Some (PStr s) \<and> well_formed_ymd s"
  then obtain S where S: "save_data data = Inr S"
    using save_data_well_formed by blast
  have set: "set S = set data" using S by (rule save_data_set)
  have "\<exists>s1 s2 d1 d2.
           (S ! i) ''update_date'' = Some (PStr s1)
         \<and> (S ! Suc i) ''update_date'' = Some (PStr s2)
         \<and> strptime_ymd s1 = Some d1 \<and> strptime_ymd s2 = Some d2
         \<and> d2 \<le> d1 \<and> s2 \<le> s1" if i: "Suc i < length S" for i
  proof -
    from save_data_adjacent [OF S i] obtain s1 s2 d1 d2 where
      k: "(S ! i) ''update_date'' = Some (PStr s1)" "(S ! Suc i) ''update_date'' = Some (PStr s2)"
         "strptime_ymd s1 = Some d1" "strptime_ymd s2 = Some d2" "d2 \<le> d1"
      unfolding date_key_Inr by blast
    from i have "S ! i \<in> set data" "S ! Suc i \<in> set data"
      using set nth_mem [of i S] nth_mem [of "Suc i" S] by auto
    with wf k(1,2) have "well_formed_ymd s1" "well_formed_ymd s2" by fastforce+
    with k(3,4,5) have "s2 \<le> s1" using well_formed_ymd_order [of s2 s1 d2 d1] by simp
    with k show ?thesis by blast
  qed
  with S set save_data_length [OF S]
  show "\<exists>S. save_data data = Inr S \<and> length S = length data \<and> set S = set data
             \<and> (\<forall>i. Suc i < length S \<longrightarrow>
                   (\<exists>s1 s2 d1 d2.
                       (S ! i) ''update_date'' = Some (PStr s1)
                     \<and> (S ! Suc i) ''update_date'' = Some (PStr s2)
                     \<and> strptime_ymd s1 = Some d1 \<and> strptime_ymd s2 = Some d2
                     \<and> d2 \<le> d1 \<and> s2 \<le> s1))"
    by blast
qed

lemma two_entry_well_formed:
  "well_formed_ymd ''2024-03-04''" "well_formed_ymd ''2024-05-17''"
  by code_simp+

theorem save_data_sorted_descending_witness:
  "well_formed_ymd ''2024-03-04'' \<and> well_formed_ymd ''2024-05-17''
   \<and> scenario_b_stored ''update_date'' = Some (PStr ''2024-03-04'')
   \<and> fresh_record ''update_date'' = Some (PStr ''2024-05-17'')
   \<and> save_data [scenario_b_stored, fresh_record] = Inr [fresh_record, scenario_b_stored]
   \<and> (\<exists>d1 d2. strptime_ymd ''2024-05-17'' = Some d1 \<and> strptime_ymd ''2024-03-04'' = Some d2
               \<and> d2 \<le> d1)
   \<and> ''2024-03-04'' \<le> ''2024-05-17''"
proof -
  have u: "scenario_b_stored ''update_date'' = Some (PStr ''2024-03-04'')"
          "fresh_record ''update_date'' = Some (PStr ''2024-05-17'')"
    by (simp_all add: scenario_b_stored_def fresh_record_def)
  have sv: "save_data [scenario_b_stored, fresh_record] = Inr [fresh_record, scenario_b_stored]"
    using two_entry_save by simp
  have "\<forall>r \<in> set [scenario_b_stored, fresh_record].
          \<exists>s. r ''update_date'' = Some (PStr s) \<and> well_formed_ymd s"
    using u two_entry_well_formed by simp
  with save_data_sorted_descending [of "[scenario_b_stored, fresh_record]" "[]" 0]
  obtain S where S: "save_data [scenario_b_stored, fresh_record] = Inr S"
    and adj: "\<forall>i. Suc i < length S \<longrightarrow>
                   (\<exists>s1 s2 d1 d2.
                       (S ! i) ''update_date'' = Some (PStr s1)
                     \<and> (S ! Suc i) ''update_date'' = Some (PStr s2)
                     \<and> strptime_ymd s1 = Some d1 \<and> strptime_ymd s2 = Some d2
                     \<and> d2 \<le> d1 \<and> s2 \<le> s1)"
    by blast
  from S sv have "S = [fresh_record, scenario_b_stored]" by simp
  with adj [rule_format, of 0] u
  have "\<exists>d1 d2. strptime_ymd ''2024-05-17'' = Some d1 \<and> strptime_ymd ''2024-03-04'' = Some d2
               \<and> d2 \<le> d1" and "''2024-03-04'' \<le> ''2024-05-17''"
    by auto
  with u sv two_entry_well_formed show ?thesis by blast
qed

section \<open>When saving fails\<close>







lemma rss_entries_step:
  "rss_entries today company kws (entry # entries) updates =
     (case title entry of
        None \<Rightarrow> updates
      | Some t \<Rightarrow>
          if rss_passes today kws entry t
          then (case link entry of
                  None \<Rightarrow> updates
                | Some l \<Rightarrow> rss_entries today company kws entries
                             (updates @ [rss_record today company entry t l]))
          else rss_entries today company kws entries updates)"
  by (simp add: Let_def rss_passes_def rss_record_def split: option.splits
        del: is_today_update.simps)

lemma rss_entries_origin:
  "r \<in> set (rss_entries today company kws entries updates) \<Longrightarrow>
   r \<in> set updates \<or>
   (\<exists>entry \<in> set entries. \<exists>t l. title entry = Some t \<and> link entry = Some l
        \<and> rss_passes today kws entry t \<and> r = rss_record today company entry t l)"
proof (induction entries arbitrary: updates)
  case Nil
  then show ?case by simp
next
  case (Cons entry entries)
  show ?case
  proof (cases "title entry")
    case None
    with Cons.prems show ?thesis by (simp add: rss_entries_step del: rss_entries.simps)
  next
    case (Some t)
    show ?thesis
    proof (cases "rss_passes today kws entry t")
      case False
      with Some Cons.prems have "r \<in> set (rss_entries today company kws entries updates)"
        by (simp add: rss_entries_step del: rss_entries.simps)
      from Cons.IH [OF this] show ?thesis by auto
    next
      case True
      show ?thesis
      proof (cases "link entry")
        case None
        with True Some Cons.prems show ?thesis by (simp add: rss_entries_step del: rss_entries.simps)
      next
        case l: (Some l)
        with True Some Cons.prems
        have "r \<in> set (rss_entries today company kws entries
                         (updates @ [rss_record today company entry t l]))"
          by (simp add: rss_entries_step del: rss_entries.simps)
        from Cons.IH [OF this] True Some l show ?thesis by auto
      qed
    qed
  qed
qed

lemma fold_origin:
  assumes "r \<in> set (fold f xs s)"
    and "\<And>x s. x \<in> set xs \<Longrightarrow> r \<in> set (f x s) \<Longrightarrow> r \<in> set s \<or> Q x"
  shows "r \<in> set s \<or> (\<exists>x \<in> set xs. Q x)"
  using assms
proof (induction xs arbitrary: s)
  case Nil
  then show ?case by simp
next
  case (Cons x xs)
  from Cons.prems(1) have "r \<in> set (fold f xs (f x s))" by simp
  from Cons.IH [OF this] Cons.prems(2) have "r \<in> set (f x s) \<or> (\<exists>x \<in> set xs. Q x)"
    by auto
  with Cons.prems(2) [of x s] show ?case by auto
qed

lemma fetch_official_rss_updates_origin:
  assumes "r \<in> set (fetch_official_rss_updates w patterns)"
  shows "\<exists>(company, info) \<in> set patterns. \<exists>rss_url \<in> set (official_sites info).
           \<exists>entries. feedparser_parse w rss_url = Some entries \<and>
             (\<exists>entry \<in> set (take 5 entries). \<exists>t l. title entry = Some t \<and> link entry = Some l
                 \<and> rss_passes (now_date w) (keyword_list info) entry t
                 \<and> r = rss_record (now_date w) company entry t l)"
proof -
  let ?Q = "\<lambda>company info rss_url.
      \<exists>entries. feedparser_parse w rss_url = Some entries \<and>
             (\<exists>entry \<in> set (take 5 entries). \<exists>t l. title entry = Some t \<and> link entry = Some l
                 \<and> rss_passes (now_date w) (keyword_list info) entry t
                 \<and> r = rss_record (now_date w) company entry t l)"
  have feed: "r \<in> set s \<or> ?Q company info rss_url"
    if "r \<in> set (rss_feed w company info rss_url s)" for company info rss_url s
    using that rss_entries_origin [of r "now_date w" company "keyword_list info" _ s]
    by (auto simp: rss_feed_def split: option.splits)
  have comp: "r \<in> set s \<or> (\<exists>rss_url \<in> set (official_sites info). ?Q company info rss_url)"
    if "r \<in> set (fold (rss_feed w company info) (official_sites info) s)" for company info s
    using fold_origin [OF that, of "?Q company info"] feed by blast
  have "r \<in> set [] \<or>
        (\<exists>x \<in> set patterns. case x of (company, info) \<Rightarrow>
            \<exists>rss_url \<in> set (official_sites info). ?Q company info rss_url)"
    using assms unfolding fetch_official_rss_updates_def
    by (rule fold_origin) (use comp in \<open>auto split: prod.splits\<close>)
  then show ?thesis by simp
qed



lemma rss_record_fields:
  "py_get (rss_record today company entry t l) ''company'' = PStr company"
  "py_get (rss_record today company entry t l) ''model_name'' = PStr t"
  "py_get (rss_record today company entry t l) ''link'' = PStr l"
  by (simp_all add: rss_record_def py_get_def)




section \<open>The relevance filter of the RSS stage\<close>




lemma extends_unique_batch:
  "extends today ex new0 new1 \<Longrightarrow> unique_store new0 \<Longrightarrow> unique_store new1"
proof (induction rule: extends.induct)
  case same
  then show ?case by simp
next
  case (more new1 c)
  then show ?case by (simp add: unique_store_snoc is_duplicate_append)
qed

lemma same_title_rss:
  "fetch_official_rss_updates same_title_world one_company = [fresh_record, fresh_record_again]"
  using two_entry_hits scenario_b_hits(3,4)
  by (simp add: fetch_official_rss_updates_def one_company_def rss_feed_def same_title_world_def
        scenario_b_world_def fresh_entry_def fresh_entry_again_def fresh_record_again_def
        fresh_record_def Let_def
        del: is_today_update.simps strftime_ymd.simps)

lemma same_title_collect:
  "collect_updates same_title_world one_company [] = [fresh_record]"
proof -
  have "rss_stage same_title_world one_company [] [] = [fresh_record]"
    by (simp add: rss_stage_def same_title_rss accept_def)
       (simp add: fresh_record_again_def fresh_record_def py_get_def)
  moreover have "github_stage same_title_world one_company [] xs = xs" for xs
    by (simp add: github_stage_def one_company_def)
  moreover have "hf_stage same_title_world one_company [] xs = xs" for xs
    by (simp add: hf_stage_def hf_company_def fetch_huggingface_models_def one_company_def
          same_title_world_def scenario_b_world_def)
  ultimately show ?thesis by (simp add: collect_updates_def)
qed

section \<open>The model name of an RSS record\<close>

text \<open>
  C10. A record of the RSS stage carries the company of the feed and, as model name, the
  title of its entry as it stands. A candidate with the company and model name of a record
  already in store or batch is a duplicate and is not appended, whatever the two links are;
  so the batch of a run never holds two records with the same company and model name.
\<close>

theorem rss_model_name_is_title:
  "(r \<in> set (fetch_official_rss_updates w patterns) \<longrightarrow>
      (\<exists>(company, info) \<in> set patterns. \<exists>rss_url \<in> set (official_sites info).
         \<exists>feed e t. feedparser_parse w rss_url = Some feed \<and> e \<in> set (take 5 feed)
           \<and> title e = Some t
           \<and> py_get r ''company'' = PStr company \<and> py_get r ''model_name'' = PStr t))
   \<and> (a \<in> set (existing @ new)
       \<and> py_get a ''company'' = py_get b ''company''
       \<and> py_get a ''model_name'' = py_get b ''model_name''
       \<longrightarrow> is_duplicate b (existing @ new) \<and> accept existing b new = new)
   \<and> unique_store (collect_updates w patterns existing)"
proof (intro conjI impI)
  assume "r \<in> set (fetch_official_rss_updates w patterns)"
  from fetch_official_rss_updates_origin [OF this]
  obtain company info rss_url feed e t l where
    o: "(company, info) \<in> set patterns" "rss_url \<in> set (official_sites info)"
       "feedparser_parse w rss_url = Some feed" "e \<in> set (take 5 feed)"
       "title e = Some t" "r = rss_record (now_date w) company e t l"
    by blast
  from o(6) have "py_get r ''company'' = PStr company \<and> py_get r ''model_name'' = PStr t"
    by (simp add: rss_record_fields)
  with o(1-5) show "\<exists>(company, info) \<in> set patterns. \<exists>rss_url \<in> set (official_sites info).
         \<exists>feed e t. feedparser_parse w rss_url = Some feed \<and> e \<in> set (take 5 feed)
           \<and> title e = Some t
           \<and> py_get r ''company'' = PStr company \<and> py_get r ''model_name'' = PStr t"
    by blast
next
  show "unique_store (collect_updates w patterns existing)"
    using extends_unique_batch [OF collect_updates_extends] by simp
next
  assume h: "a \<in> set (existing @ new)
       \<and> py_get a ''company'' = py_get b ''company''
       \<and> py_get a ''model_name'' = py_get b ''model_name''"
  then have "conflict b a" by (simp add: conflict_def)
  with h show d: "is_duplicate b (existing @ new)"
    unfolding is_duplicate_conflict by blast
  then show "accept existing b new = new" by (simp add: accept_def)
qed

theorem rss_model_name_is_title_witness:
  "fetch_official_rss_updates same_title_world one_company = [fresh_record, fresh_record_again]
   \<and> py_get fresh_record ''link'' = PStr ''https://x/z''
   \<and> py_get fresh_record_again ''link'' = PStr ''https://x/again''
   \<and> py_get fresh_record ''company'' = py_get fresh_record_again ''company''
   \<and> py_get fresh_record ''model_name'' = py_get fresh_record_again ''model_name''
   \<and> py_get fresh_record_again ''model_name'' = PStr ''Claude 3.5 now available''
   \<and> is_duplicate fresh_record_again ([] @ [fresh_record])
   \<and> accept [] fresh_record_again [fresh_record] = [fresh_record]
   \<and> collect_updates same_title_world one_company [] = [fresh_record]
   \<and> unique_store [fresh_record]"
proof -
  have f: "py_get fresh_record ''link'' = PStr ''https://x/z''"
          "py_get fresh_record_again ''link'' = PStr ''https://x/again''"
          "py_get fresh_record ''company'' = py_get fresh_record_again ''company''"
          "py_get fresh_record ''model_name'' = py_get fresh_record_again ''model_name''"
          "py_get fresh_record_again ''model_name'' = PStr ''Claude 3.5 now available''"
    by (simp_all add: fresh_record_def fresh_record_again_def py_get_def)
  from rss_model_name_is_title
         [of fresh_record_again same_title_world one_company fresh_record "[]" "[fresh_record]"
             fresh_record_again]
       f same_title_collect
  have "is_duplicate fresh_record_again ([] @ [fresh_record])
        \<and> accept [] fresh_record_again [fresh_record] = [fresh_record]
        \<and> unique_store [fresh_record]"
    by simp
  with f same_title_rss same_title_collect show ?thesis by blast
qed

lemma digit_char_digit: "k < 10 \<Longrightarrow> is_digit (digit_char k) \<and> digit_val (digit_char k) = k"
  by (simp add: is_digit_of_char digit_char_def digit_val_def)

lemma four_digits_value:
  fixes y :: nat
  assumes "y \<le> 9999"
  shows "1000 * (y div 1000 mod 10) + 100 * (y div 100 mod 10) + 10 * (y div 10 mod 10) + y mod 10 = y"
proof -
  define q1 where "q1 = y div 10"
  define q2 where "q2 = y div 100"
  define q3 where "q3 = y div 1000"
  define D where "D = y mod 10"
  define C where "C = q1 mod 10"
  define B where "B = q2 mod 10"
  have d2: "q1 div 10 = q2" unfolding q1_def q2_def by (simp add: div_mult2_eq [symmetric])
  have d3: "q2 div 10 = q3" unfolding q2_def q3_def by (simp add: div_mult2_eq [symmetric])
  have e1: "y = 10 * q1 + D" unfolding q1_def D_def by simp
  have e2: "q1 = 10 * q2 + C" unfolding C_def d2 [symmetric] by simp
  have e3: "q2 = 10 * q3 + B" unfolding B_def d3 [symmetric] by simp
  have "q3 < 10" unfolding q3_def using assms by simp
  then have e4: "q3 mod 10 = q3" by simp
  have "1000 * (q3 mod 10) + 100 * B + 10 * C + D = y"
    unfolding e4 using e1 e2 e3 by linarith
  then show ?thesis unfolding q3_def B_def C_def D_def q2_def q1_def .
qed

lemma two_digits_value:
  fixes m :: nat
  assumes "m \<le> 99"
  shows "10 * (m div 10 mod 10) + m mod 10 = m"
proof -
  have "m div 10 < 10" using assms by simp
  then have "m div 10 mod 10 = m div 10" by simp
  then show ?thesis by simp
qed

lemma strptime_strftime:
  assumes "valid_date dt"
  shows "strptime_ymd (strftime_ymd dt) = Some dt"
proof -
  obtain y m d where dt: "dt = (y, m, d)" by (cases dt)
  from assms dt have y: "y \<le> 9999" and m: "m \<le> 99" and d: "d \<le> 99"
    using days_in_month_le [of y m] by auto
  let ?y1 = "digit_char (y div 1000 mod 10)" and ?y2 = "digit_char (y div 100 mod 10)"
  let ?y3 = "digit_char (y div 10 mod 10)" and ?y4 = "digit_char (y mod 10)"
  let ?m1 = "digit_char (m div 10 mod 10)" and ?m2 = "digit_char (m mod 10)"
  let ?d1 = "digit_char (d div 10 mod 10)" and ?d2 = "digit_char (d mod 10)"
  have dg: "is_digit ?y1" "is_digit ?y2" "is_digit ?y3" "is_digit ?y4"
           "is_digit ?m1" "is_digit ?m2" "is_digit ?d1" "is_digit ?d2"
    by (simp_all add: digit_char_digit)
  have vals: "1000 * digit_val ?y1 + 100 * digit_val ?y2 + 10 * digit_val ?y3 + digit_val ?y4 = y"
             "10 * digit_val ?m1 + digit_val ?m2 = m"
             "10 * digit_val ?d1 + digit_val ?d2 = d"
    using four_digits_value [OF y] two_digits_value [OF m] two_digits_value [OF d]
    by (simp_all add: digit_char_digit)
  have v: "valid_date (1000 * digit_val ?y1 + 100 * digit_val ?y2 + 10 * digit_val ?y3 + digit_val ?y4,
                       10 * digit_val ?m1 + digit_val ?m2, 10 * digit_val ?d1 + digit_val ?d2)"
    unfolding vals using assms dt by simp
  have "strftime_ymd dt = [?y1, ?y2, ?y3, ?y4, CHR ''-'', ?m1, ?m2, CHR ''-'', ?d1, ?d2]"
    by (simp add: dt pad4_def pad2_def)
  then show ?thesis
    using strptime_ten_chars [OF dg v] unfolding vals by (simp add: dt)
qed

lemma is_today_update_strftime:
  "valid_date today \<Longrightarrow> is_today_update today (PStr (strftime_ymd today))"
  by (simp add: strptime_strftime)

lemma extract_hf_company:
  "extract_model_info_from_hf today model company = Some info \<Longrightarrow>
   py_get info ''company'' = PStr company"
  by (auto simp: extract_model_info_from_hf_def Let_def py_get_def split: option.splits)

lemma hf_models_added:
  "\<exists>added. hf_models today company ex models cnt new = new @ added
           \<and> length added \<le> 2 - cnt
           \<and> (\<forall>r \<in> set added. py_get r ''company'' = PStr company)"
proof (induction models arbitrary: cnt new)
  case Nil
  then show ?case by simp
next
  case (Cons model models)
  show ?case
  proof (cases "cnt \<ge> 2")
    case True
    then show ?thesis by simp
  next
    case False
    show ?thesis
    proof (cases "extract_model_info_from_hf today model company")
      case None
      with False Cons.IH [of cnt new] show ?thesis by simp
    next
      case (Some info)
      show ?thesis
      proof (cases "is_today_update today (py_get info ''update_date'')
                    \<and> \<not> is_duplicate info (ex @ new)")
        case no: False
        with False Some Cons.IH [of cnt new] show ?thesis by auto
      next
        case True
        from Cons.IH [of "cnt + 1" "new @ [info]"] obtain added where
          a: "hf_models today company ex models (cnt + 1) (new @ [info]) = (new @ [info]) @ added"
             "length added \<le> 2 - (cnt + 1)"
             "\<forall>r \<in> set added. py_get r ''company'' = PStr company"
          by blast
        have "hf_models today company ex (model # models) cnt new = new @ (info # added)"
          using False Some True a(1) by simp
        moreover have "length (info # added) \<le> 2 - cnt" using a(2) False by simp
        moreover have "\<forall>r \<in> set (info # added). py_get r ''company'' = PStr company"
          using a(3) extract_hf_company [OF Some] by simp
        ultimately show ?thesis by blast
      qed
    qed
  qed
qed

lemma hf_models_stop:
  "cnt \<le> 2 \<Longrightarrow>
   length (hf_models today company ex models cnt new) = length new + (2 - cnt) \<Longrightarrow>
   hf_models today company ex (models @ rest) cnt new = hf_models today company ex models cnt new"
proof (induction models arbitrary: cnt new)
  case Nil
  then have "cnt = 2" by simp
  then show ?case by (cases rest) simp_all
next
  case (Cons model models)
  show ?case
  proof (cases "cnt \<ge> 2")
    case True
    then show ?thesis by simp
  next
    case False
    show ?thesis
    proof (cases "extract_model_info_from_hf today model company")
      case None
      with False Cons.prems Cons.IH [of cnt new] show ?thesis by simp
    next
      case (Some info)
      show ?thesis
      proof (cases "is_today_update today (py_get info ''update_date'')
                    \<and> \<not> is_duplicate info (ex @ new)")
        case no: False
        with False Some Cons.prems Cons.IH [of cnt new] show ?thesis by auto
      next
        case True
        have "length (hf_models today company ex models (cnt + 1) (new @ [info]))
              = length (new @ [info]) + (2 - (cnt + 1))"
          using Cons.prems(2) False Some True by simp
        with Cons.IH [of "cnt + 1" "new @ [info]"] False
        have "hf_models today company ex (models @ rest) (cnt + 1) (new @ [info])
              = hf_models today company ex models (cnt + 1) (new @ [info])"
          by simp
        with False Some True show ?thesis by simp
      qed
    qed
  qed
qed

lemma hf_models_first_two:
  assumes "extract_model_info_from_hf today m1 company = Some r1"
    and "extract_model_info_from_hf today m2 company = Some r2"
    and "is_today_update today (py_get r1 ''update_date'')"
    and "is_today_update today (py_get r2 ''update_date'')"
    and "\<not> is_duplicate r1 (ex @ new)" and "\<not> is_duplicate r2 (ex @ new @ [r1])"
  shows "hf_models today company ex (m1 # m2 # rest) 0 new = new @ [r1, r2]"
  using assms by (cases rest) (simp_all del: is_today_update.simps)

lemma extract_hf_today:
  assumes "extract_model_info_from_hf today m company = Some r"
    and "lastModified m = Some today \<or> lastModified m = None" and "valid_date today"
  shows "is_today_update today (py_get r ''update_date'')"
proof -
  from assms(1,2) have "py_get r ''update_date'' = PStr (strftime_ymd today)"
    by (auto simp: extract_model_info_from_hf_def Let_def py_get_def split: option.splits)
  with assms(3) show ?thesis by (simp add: is_today_update_strftime del: is_today_update.simps)
qed

lemma filter_company_all:
  "\<forall>r \<in> set added. py_get r ''company'' = PStr company \<Longrightarrow>
   filter (\<lambda>r. py_get r ''company'' = PStr c) added = (if c = company then added else [])"
  by (induction added) auto

lemma hf_stage_added:
  "\<exists>added. hf_stage w patterns ex new = new @ added
           \<and> (\<forall>c. length (filter (\<lambda>r. py_get r ''company'' = PStr c) added)
                    \<le> 2 * length (filter (\<lambda>p. fst p = c) patterns))"
proof (induction patterns arbitrary: new)
  case Nil
  then show ?case by (simp add: hf_stage_def)
next
  case (Cons p patterns)
  obtain company info where p: "p = (company, info)" by (cases p)
  obtain a1 where a1:
    "hf_company w ex p new = new @ a1" "length a1 \<le> 2"
    "\<forall>r \<in> set a1. py_get r ''company'' = PStr company"
    using hf_models_added [of "now_date w" company ex
            "fetch_huggingface_models w (keyword_list info)" 0 new]
    by (auto simp: hf_company_def p)
  from Cons.IH [of "new @ a1"] obtain a2 where a2:
    "hf_stage w patterns ex (new @ a1) = (new @ a1) @ a2"
    "\<forall>c. length (filter (\<lambda>r. py_get r ''company'' = PStr c) a2)
           \<le> 2 * length (filter (\<lambda>p. fst p = c) patterns)"
    by blast
  have "hf_stage w (p # patterns) ex new = new @ (a1 @ a2)"
    using a1(1) a2(1) by (simp add: hf_stage_def)
  moreover have "length (filter (\<lambda>r. py_get r ''company'' = PStr c) (a1 @ a2))
                 \<le> 2 * length (filter (\<lambda>p. fst p = c) (p # patterns))" for c
    using a2(2) [rule_format, of c] a1(2) filter_company_all [OF a1(3), of c]
    by (simp add: p)
  ultimately show ?case by blast
qed

lemma distinct_filter_fst:
  "distinct (map fst ps) \<Longrightarrow> length (filter (\<lambda>p. fst p = c) ps) \<le> 1"
proof (induction ps)
  case Nil
  then show ?case by simp
next
  case (Cons p ps)
  show ?case
  proof (cases "fst p = c")
    case True
    with Cons.prems have "\<forall>q \<in> set ps. fst q \<noteq> c" by (auto simp: image_iff)
    then have "filter (\<lambda>p. fst p = c) ps = []" by (simp add: filter_empty_conv)
    with True show ?thesis by simp
  next
    case False
    with Cons show ?thesis by simp
  qed
qed

section \<open>The cap of the Hugging Face stage\<close>

text \<open>
  C6. The loop over one company's models appends at most two records. Once it has appended
  two it stops: whatever follows in the list of models changes nothing. Over a table with
  one entry per company the whole stage adds at most two records of any company. When the
  list has three or more models, the first two are last modified today and neither is a
  duplicate, the loop appends exactly the records of these two, in their order.
\<close>

theorem hf_stage_accepts_at_most_two:
  "(\<exists>added. hf_models today company existing models 0 new = new @ added \<and> length added \<le> 2)
   \<and> (length (hf_models today company existing models 0 new) = length new + 2
       \<longrightarrow> hf_models today company existing (models @ later) 0 new
           = hf_models today company existing models 0 new)
   \<and> (distinct (map fst patterns)
       \<longrightarrow> (\<exists>added. hf_stage w patterns existing new = new @ added
               \<and> (\<forall>c. length (filter (\<lambda>r. py_get r ''company'' = PStr c) added) \<le> 2)))
   \<and> (valid_date today \<and> lastModified m1 = Some today \<and> lastModified m2 = Some today
       \<and> extract_model_info_from_hf today m1 company = Some r1
       \<and> extract_model_info_from_hf today m2 company = Some r2
       \<and> \<not> is_duplicate r1 (existing @ new) \<and> \<not> is_duplicate r2 (existing @ new @ [r1])
       \<longrightarrow> hf_models today company existing (m1 # m2 # m3 # rest) 0 new = new @ [r1, r2])"
proof (intro conjI impI)
  show "\<exists>added. hf_models today company existing models 0 new = new @ added \<and> length added \<le> 2"
    using hf_models_added [of today company existing models 0 new] by auto
next
  assume "length (hf_models today company existing models 0 new) = length new + 2"
  then show "hf_models today company existing (models @ later) 0 new
           = hf_models today company existing models 0 new"
    using hf_models_stop [of 0 today company existing models new later] by simp
next
  assume d: "distinct (map fst patterns)"
  from hf_stage_added [of w patterns existing new] obtain added where
    a: "hf_stage w patterns existing new = new @ added"
       "\<forall>c. length (filter (\<lambda>r. py_get r ''company'' = PStr c) added)
            \<le> 2 * length (filter (\<lambda>p. fst p = c) patterns)"
    by blast
  have "length (filter (\<lambda>r. py_get r ''company'' = PStr c) added) \<le> 2" for c
    using a(2) [rule_format, of c] distinct_filter_fst [OF d, of c] by linarith
  with a(1) show "\<exists>added. hf_stage w patterns existing new = new @ added
               \<and> (\<forall>c. length (filter (\<lambda>r. py_get r ''company'' = PStr c) added) \<le> 2)"
    by blast
next
  assume h: "valid_date today \<and> lastModified m1 = Some today \<and> lastModified m2 = Some today
       \<and> extract_model_info_from_hf today m1 company = Some r1
       \<and> extract_model_info_from_hf today m2 company = Some r2
       \<and> \<not> is_duplicate r1 (existing @ new) \<and> \<not> is_duplicate r2 (existing @ new @ [r1])"
  then have "is_today_update today (py_get r1 ''update_date'')"
    and "is_today_update today (py_get r2 ''update_date'')"
    using extract_hf_today by blast+
  with h show "hf_models today company existing (m1 # m2 # m3 # rest) 0 new = new @ [r1, r2]"
    using hf_models_first_two [of today m1 company r1 m2 r2 existing new "m3 # rest"] by blast
qed

lemma scenario_d_extract:
  "extract_model_info_from_hf (2024, 5, 17) (scenario_d_model name) ''DeepSeek''
   = Some (scenario_d_record name)"
  using scenario_b_hits(4)
  by (simp add: extract_model_info_from_hf_def scenario_d_model_def scenario_d_record_def
        del: strftime_ymd.simps)

lemma scenario_d_fresh:
  "\<not> is_duplicate (scenario_d_record ''deepseek-ai/a'') ([] @ [])"
  "\<not> is_duplicate (scenario_d_record ''deepseek-ai/b'') ([] @ [] @ [scenario_d_record ''deepseek-ai/a''])"
  by (simp_all add: scenario_d_record_def py_get_def)

lemma scenario_d_valid: "valid_date (2024, 5, 17)"
  by (simp add: days_in_month_def)

theorem hf_stage_accepts_at_most_two_witness:
  "valid_date (2024, 5, 17)
   \<and> lastModified (scenario_d_model ''deepseek-ai/a'') = Some (2024, 5, 17)
   \<and> lastModified (scenario_d_model ''deepseek-ai/b'') = Some (2024, 5, 17)
   \<and> lastModified (scenario_d_model ''deepseek-ai/c'') = Some (2024, 5, 17)
   \<and> extract_model_info_from_hf (2024, 5, 17) (scenario_d_model ''deepseek-ai/a'') ''DeepSeek''
       = Some (scenario_d_record ''deepseek-ai/a'')
   \<and> extract_model_info_from_hf (2024, 5, 17) (scenario_d_model ''deepseek-ai/b'') ''DeepSeek''
       = Some (scenario_d_record ''deepseek-ai/b'')
   \<and> \<not> is_duplicate (scenario_d_record ''deepseek-ai/a'') ([] @ [])
   \<and> \<not> is_duplicate (scenario_d_record ''deepseek-ai/b'')
          ([] @ [] @ [scenario_d_record ''deepseek-ai/a''])
   \<and> hf_models (2024, 5, 17) ''DeepSeek'' []
        [scenario_d_model ''deepseek-ai/a'', scenario_d_model ''deepseek-ai/b'',
         scenario_d_model ''deepseek-ai/c''] 0 []
       = [scenario_d_record ''deepseek-ai/a'', scenario_d_record ''deepseek-ai/b'']
   \<and> distinct (map fst deepseek_only)
   \<and> hf_stage scenario_d_world deepseek_only [] []
       = [scenario_d_record ''deepseek-ai/a'', scenario_d_record ''deepseek-ai/b'']"
proof -
  have lm: "lastModified (scenario_d_model name) = Some (2024, 5, 17)" for name
    by (simp add: scenario_d_model_def)
  have loop: "hf_models (2024, 5, 17) ''DeepSeek'' []
        [scenario_d_model ''deepseek-ai/a'', scenario_d_model ''deepseek-ai/b'',
         scenario_d_model ''deepseek-ai/c''] 0 []
       = [] @ [scenario_d_record ''deepseek-ai/a'', scenario_d_record ''deepseek-ai/b'']"
    using hf_stage_accepts_at_most_two
            [of "(2024, 5, 17)" "''DeepSeek''" "[]" "[]" "[]" "[]" "[]" scenario_d_world
                "scenario_d_model ''deepseek-ai/a''" "scenario_d_model ''deepseek-ai/b''"
                "scenario_d_record ''deepseek-ai/a''" "scenario_d_record ''deepseek-ai/b''"
                "scenario_d_model ''deepseek-ai/c''" "[]"]
          scenario_d_valid lm scenario_d_extract scenario_d_fresh
    by blast
  have d: "distinct (map fst deepseek_only)" by (simp add: deepseek_only_def)
  have "hf_stage scenario_d_world deepseek_only [] []
        = hf_models (2024, 5, 17) ''DeepSeek'' []
            [scenario_d_model ''deepseek-ai/a'', scenario_d_model ''deepseek-ai/b'',
             scenario_d_model ''deepseek-ai/c''] 0 []"
    by (simp add: hf_stage_def hf_company_def deepseek_only_def fetch_huggingface_models_def
          scenario_d_world_def scenario_b_world_def del: hf_models.simps)
  with loop have "hf_stage scenario_d_world deepseek_only [] []
       = [scenario_d_record ''deepseek-ai/a'', scenario_d_record ''deepseek-ai/b'']"
    by simp
  with loop d scenario_d_valid lm scenario_d_extract scenario_d_fresh show ?thesis
    by simp
qed


declare digit_groups.simps [simp del]











lemma extract_github_unfold:
  "extract_model_info_from_github parse release company =
     (case release ''published_at'' of
        None \<Rightarrow> None
      | Some PNone \<Rightarrow> None
      | Some (PStr ts) \<Rightarrow>
          (case parse ts of
             None \<Rightarrow> None
           | Some dt \<Rightarrow>
               (case py_get_default release ''tag_name''
                       (py_get_default release ''name'' (PStr ''Unknown'')) of
                  PNone \<Rightarrow> None
                | PStr tag \<Rightarrow>
                    (case py_get_default release ''body'' (PStr []) of
                       PNone \<Rightarrow> None
                     | PStr body \<Rightarrow>
                         Some (github_record company (github_model_name company release tag) dt body
                                 (py_get_default release ''html_url'' (PStr [])))))))"
  unfolding extract_model_info_from_github_def github_record_def github_model_name_def Let_def
  by (rule refl)




lemma turbo_tags:
  "re_sub_version ''v2.1-turbo'' = ''-turbo''"
  "strip_ws (strip_dash ''-turbo'') = ''turbo''"
  "re_sub_version ''v2-turbo'' = ''-turbo''"
  "spec_model_name ''OpenAI'' ''v2-turbo'' = ''v2-turbo''"
  "spec_model_name ''OpenAI'' ''v2.1-turbo'' = ''turbo''"
  "strftime_ymd (2024, 5, 17) = ''2024-05-17''"
  by code_simp+

lemma scenario_a_extract:
  "extract_model_info_from_github may17_parser scenario_a_release ''OpenAI''
   = Some scenario_a_record"
  unfolding extract_github_unfold github_model_name_def
  using turbo_tags
  by (simp add: scenario_a_release_def scenario_a_record_def github_record_def
        py_get_default_def may17_parser_def del: strftime_ymd.simps)


section \<open>The model name of a GitHub release\<close>






section \<open>Loading the store\<close>






end
